theory Spec2Isabelle
  imports Main "HOL-Library.Sublist"
begin

section \<open>Claudy: the workspace registry and its launcher\<close>

text \<open>
  A shallow embedding of \<^verbatim>\<open>src/index.ts\<close>. The program is a command-line
  tool: every command loads the registry, reads answers from the terminal, prints,
  possibly rewrites the registry file, possibly spawns the external program, and ends
  the process. The embedding makes each of these explicit:
  \<^item> the terminal's answers are arguments (the raw results of the prompt library);
  \<^item> what a command does is the list of its events, in order (lines printed, the
    registry written by \<^verbatim>\<open>save\<close>, the process spawned);
  \<^item> how a command ends is a status: it returns, the process exits with a code, or an
    exception nothing catches ends it.
\<close>

subsection \<open>Data model\<close>

record Workspace =
  name :: string
  description :: string
  cwd :: string
  addDirs :: "string list option"

record Config =
  workspaces :: "Workspace list"

subsection \<open>The platform\<close>

text \<open>
  \<^verbatim>\<open>Bun.spawn\<close> starts the child or throws (the working directory is not a directory,
  the program is not installed). When it has started the child, the program waits for
  the child to exit and reads \<^verbatim>\<open>p.exitCode\<close>, which is absent when the child has no
  exit code.
\<close>

datatype subprocess = SpawnThrows | Subprocess "int option"

text \<open>
  What the program asks of its runtime: the current directory, the home directory, the
  existence test of the file system, the three functions of the path module it imports,
  the two methods of strings it calls, \<^verbatim>\<open>String.prototype.toLowerCase\<close> and
  \<^verbatim>\<open>String.prototype.trim\<close>, and \<^verbatim>\<open>Bun.spawn\<close>, a function of the argument list
  and of the working directory asked for. They are fields of an environment the commands
  take as an argument, so a theorem holds for every platform, whatever its case mapping
  and its white space are.
\<close>

record env =
  process_cwd :: string
  homedir :: string
  existsSync :: "string \<Rightarrow> bool"
  path_join :: "string \<Rightarrow> string \<Rightarrow> string"
  path_resolve :: "string \<Rightarrow> string"
  path_basename :: "string \<Rightarrow> string"
  toLowerCase :: "string \<Rightarrow> string"
  trim :: "string \<Rightarrow> string"
  Bun_spawn :: "string list \<Rightarrow> string option \<Rightarrow> subprocess"

subsection \<open>The terminal\<close>

text \<open>
  The raw result of \<^verbatim>\<open>createPrompt\<close> is its \<^verbatim>\<open>value\<close> (absent when the user
  cancels); the raw result of \<^verbatim>\<open>createSelection\<close> is an error flag and a selected
  index.
\<close>

record selection =
  sel_error :: bool
  selectedIndex :: "int option"

definition prompt :: "env \<Rightarrow> string option \<Rightarrow> string option" where
  "prompt e r = (case r of None \<Rightarrow> None | Some v \<Rightarrow> Some (trim e v))"

definition select :: "'a list \<Rightarrow> selection \<Rightarrow> nat option" where
  "select opts r =
     (if length opts = 0 then None
      else if sel_error r then None
      else case selectedIndex r of
             None \<Rightarrow> None
           | Some i \<Rightarrow> if i < 0 then None else Some (nat i))"

text \<open>
  One turn of the edit menu asks at most one question of each kind: the field menu,
  then a prompt, or the sub-menu of the additional directories and then a prompt or the
  menu of the directories to remove. A turn holds the answer to each; an answer the code
  does not ask for in that turn is not read.
\<close>

record turn =
  fieldSel :: selection
  textValue :: "string option"
  actionSel :: selection
  removeSel :: selection

text \<open>The answers of one run of the program, one field per question.\<close>

record ui =
  menuSel :: selection
  manageSel :: selection
  pickSel :: selection
  confirmSel :: selection
  promptValue :: "string option"
  turns :: "turn list"

subsection \<open>Events and outcomes\<close>

datatype message =
    ConfigCorrupted
  | DirectoryNotFound string
  | WorkspaceAlreadyExists string
  | DirectoryAlreadyRegistered string
  | ShowDirectory string
  | Blank
  | PrintWorkspace Workspace
  | Added string
  | NoWorkspacesConfigured
  | WorkspaceNotFound string
  | Deleted string
  | NameAlreadyExists string
  | NotFoundPath string
  | AlreadyUsedBy string
  | NotFound
  | SameAsWorkingDirectory
  | AlreadyAdded
  | AddedDirectory
  | NoDirectoriesToRemove
  | RemovedDirectory
  | ClearedAll
  | NoWorkspacesListed
  | NoWorkspacesHint
  | Logo
  | NoWorkspacesYet
  | LaunchingClaude
  | WorkingDirectoryNotFound string
  | AdditionalDirectoryNotFound string
  | Launching string

datatype event =
    ConsoleLog message
  | ConsoleError message
  | Save Config
  | Spawn "string list" "string option"

text \<open>
  A command returns, ends the process with an exit code, or stops at an exception that
  nothing catches: a field of \<^verbatim>\<open>undefined\<close> is read, or \<^verbatim>\<open>Bun.spawn\<close> throws. No
  command has a \<^verbatim>\<open>try\<close> around either, so the exception reaches the runtime, which
  reports it and ends the process.
\<close>

datatype status = Returned | Exited int | Thrown

type_synonym outcome = "event list \<times> status"

definition die :: "message \<Rightarrow> outcome" where
  "die msg = ([ConsoleError msg], Exited 1)"

definition saves :: "outcome \<Rightarrow> Config list" where
  "saves r = concat (map (\<lambda>ev. case ev of Save c \<Rightarrow> [c] | _ \<Rightarrow> []) (fst r))"

definition spawns :: "outcome \<Rightarrow> (string list \<times> string option) list" where
  "spawns r = concat (map (\<lambda>ev. case ev of Spawn a d \<Rightarrow> [(a, d)] | _ \<Rightarrow> []) (fst r))"

subsection \<open>Utilities\<close>

definition resolvePath :: "env \<Rightarrow> string \<Rightarrow> string" where
  "resolvePath e s =
     (if s = [] then process_cwd e
      else if take 1 s = ''~'' then path_join e (homedir e) (drop 1 s)
      else path_resolve e s)"

definition exists :: "env \<Rightarrow> string \<Rightarrow> bool" where
  "exists e p = existsSync e p"

definition findByName :: "env \<Rightarrow> Config \<Rightarrow> string \<Rightarrow> Workspace option" where
  "findByName e c n = find (\<lambda>w. toLowerCase e (name w) = toLowerCase e n) (workspaces c)"

definition findByCwd :: "Config \<Rightarrow> string \<Rightarrow> Workspace option" where
  "findByCwd c p = find (\<lambda>w. cwd w = p) (workspaces c)"

text \<open>\<^verbatim>\<open>args[i]\<close>: absent past the end of the list.\<close>

definition arg :: "string list \<Rightarrow> nat \<Rightarrow> string option" where
  "arg args i = (if i < length args then Some (args ! i) else None)"

text \<open>
  \<^verbatim>\<open>[...new Set(xs)]\<close>: the elements are inserted in order, one already in the set
  is skipped, and the set is read back in insertion order.
\<close>

primrec setInsertAll :: "'a list \<Rightarrow> 'a list \<Rightarrow> 'a list" where
  "setInsertAll seen [] = seen"
| "setInsertAll seen (x # xs) = setInsertAll (if x \<in> set seen then seen else seen @ [x]) xs"

definition newSet :: "'a list \<Rightarrow> 'a list" where
  "newSet xs = setInsertAll [] xs"

subsection \<open>The add command\<close>

text \<open>
  \<^verbatim>\<open>cmdAdd(args)\<close>, lines 108 to 152. \<open>config\<close> is the registry \<^verbatim>\<open>load()\<close>
  returned. The three values computed before the validation are functions of their own,
  so that the theorems can name them.
\<close>

definition addCwd :: "env \<Rightarrow> string list \<Rightarrow> string" where
  "addCwd e args = resolvePath e (case arg args 1 of Some a \<Rightarrow> a | None \<Rightarrow> [])"

definition addName :: "env \<Rightarrow> string list \<Rightarrow> string" where
  "addName e args =
     (case arg args 0 of
        Some a \<Rightarrow> if a \<noteq> [] then a else path_basename e (addCwd e args)
      | None \<Rightarrow> path_basename e (addCwd e args))"

definition addAddDirs :: "env \<Rightarrow> string list \<Rightarrow> string list" where
  "addAddDirs e args = filter (\<lambda>d. d \<noteq> addCwd e args) (map (resolvePath e) (drop 2 args))"

definition cmdAdd :: "env \<Rightarrow> ui \<Rightarrow> string list \<Rightarrow> Config \<Rightarrow> outcome" where
  "cmdAdd e u args config =
     (let isInteractive = (length args = 0);
          cwd' = addCwd e args;
          name' = addName e args;
          addDirs' = addAddDirs e args
      in
      if \<not> exists e cwd' then die (DirectoryNotFound cwd')
      else if findByName e config name' \<noteq> None then die (WorkspaceAlreadyExists name')
      else case findByCwd config cwd' of
        Some w \<Rightarrow> die (DirectoryAlreadyRegistered (name w))
      | None \<Rightarrow>
       (case find (\<lambda>d. \<not> exists e d) addDirs' of
          Some d \<Rightarrow> die (DirectoryNotFound d)
        | None \<Rightarrow>
          (let uniqueAddDirs = newSet addDirs';
               shown = (if isInteractive then [ConsoleLog (ShowDirectory cwd')] else []);
               input = (if isInteractive then prompt e (promptValue u) else None)
           in if isInteractive \<and> input = None then (shown, Returned)
              else
                 let desc = (case input of
                               Some i \<Rightarrow> if i \<noteq> [] then i else name'
                             | None \<Rightarrow> name');
                     ws = \<lparr>name = name', description = desc, cwd = cwd',
                           addDirs = (if length uniqueAddDirs > 0 then Some uniqueAddDirs
                                      else None)\<rparr>;
                     preview = shown @ [ConsoleLog Blank, ConsoleLog (PrintWorkspace ws)];
                     confirmIdx = select [''Save'', ''Cancel''] (confirmSel u)
                 in if confirmIdx \<noteq> Some 0 then (preview, Returned)
                    else (preview
                            @ [Save (config\<lparr>workspaces := workspaces config @ [ws]\<rparr>),
                               ConsoleLog (Added name')],
                          Returned))))"

subsection \<open>Choosing the workspace of the remove and edit commands\<close>

text \<open>
  \<^verbatim>\<open>findIndex\<close> gives the position of the first match, or nothing where the source
  has \<open>-1\<close>.
\<close>

primrec findIndex :: "('a \<Rightarrow> bool) \<Rightarrow> 'a list \<Rightarrow> nat option" where
  "findIndex P [] = None"
| "findIndex P (x # xs) =
     (if P x then Some 0 else case findIndex P xs of None \<Rightarrow> None | Some i \<Rightarrow> Some (Suc i))"

text \<open>
  Lines 161 to 172 and 194 to 205, the same in both commands: the workspace is the one
  named by the first argument, or the one picked from a menu. The result is the outcome
  that ends the command, or the index.
\<close>

definition chooseIndex :: "env \<Rightarrow> ui \<Rightarrow> string list \<Rightarrow> Config \<Rightarrow> outcome + nat" where
  "chooseIndex e u args config =
     (case arg args 0 of
        Some a \<Rightarrow>
          if a \<noteq> [] then
            (case findIndex (\<lambda>w. toLowerCase e (name w) = toLowerCase e a)
                            (workspaces config) of
               None \<Rightarrow> Inl (die (WorkspaceNotFound a))
             | Some idx \<Rightarrow> Inr idx)
          else (case select (workspaces config) (pickSel u) of
                  None \<Rightarrow> Inl ([], Returned)
                | Some i \<Rightarrow> Inr i)
      | None \<Rightarrow>
          (case select (workspaces config) (pickSel u) of
             None \<Rightarrow> Inl ([], Returned)
           | Some i \<Rightarrow> Inr i))"

subsection \<open>The remove command\<close>

text \<open>
  \<^verbatim>\<open>splice(i, 1)\<close> removes the element at position \<open>i\<close>, and nothing when \<open>i\<close>
  is past the end.
\<close>

definition splice1 :: "nat \<Rightarrow> 'a list \<Rightarrow> 'a list" where
  "splice1 i xs = take i xs @ drop (Suc i) xs"

definition cmdRm :: "env \<Rightarrow> ui \<Rightarrow> string list \<Rightarrow> Config \<Rightarrow> outcome" where
  "cmdRm e u args config =
     (if length (workspaces config) = 0 then die NoWorkspacesConfigured
      else case chooseIndex e u args config of
        Inl out \<Rightarrow> out
      | Inr idx \<Rightarrow>
          if \<not> idx < length (workspaces config) then ([], Thrown)
          else
            let ws = workspaces config ! idx;
                byName = (case arg args 0 of Some a \<Rightarrow> a \<noteq> [] | None \<Rightarrow> False)
            in if \<not> byName \<and> select [''Delete'', ''Cancel''] (confirmSel u) \<noteq> Some 0
               then ([], Returned)
               else ([Save (config\<lparr>workspaces := splice1 idx (workspaces config)\<rparr>),
                      ConsoleLog (Deleted (name ws))],
                     Returned))"

subsection \<open>The edit command\<close>

text \<open>
  \<^verbatim>\<open>ws\<close> is a reference into \<^verbatim>\<open>config.workspaces\<close>: an assignment to a field of
  \<^verbatim>\<open>ws\<close> changes the registry in memory, which \<^verbatim>\<open>save(config)\<close> then writes.
\<close>

definition setWorkspace :: "Config \<Rightarrow> nat \<Rightarrow> Workspace \<Rightarrow> Config" where
  "setWorkspace config idx ws = config\<lparr>workspaces := (workspaces config)[idx := ws]\<rparr>"

text \<open>Case 0 of the switch, lines 224 to 235.\<close>

definition editName :: "env \<Rightarrow> nat \<Rightarrow> turn \<Rightarrow> Config \<Rightarrow> Config \<times> event list" where
  "editName e idx t config =
     (let ws = workspaces config ! idx in
      case prompt e (textValue t) of
        None \<Rightarrow> (config, [])
      | Some v \<Rightarrow>
          if v \<noteq> [] \<and> v \<noteq> name ws then
            (if findByName e config v \<noteq> None then (config, [ConsoleLog (NameAlreadyExists v)])
             else let config' = setWorkspace config idx (ws\<lparr>name := v\<rparr>)
                  in (config', [Save config']))
          else (config, []))"

text \<open>Case 1, lines 236 to 243.\<close>

definition editDescription :: "env \<Rightarrow> nat \<Rightarrow> turn \<Rightarrow> Config \<Rightarrow> Config \<times> event list" where
  "editDescription e idx t config =
     (let ws = workspaces config ! idx in
      case prompt e (textValue t) of
        None \<Rightarrow> (config, [])
      | Some v \<Rightarrow>
          if v \<noteq> [] then
            (let config' = setWorkspace config idx (ws\<lparr>description := v\<rparr>)
             in (config', [Save config']))
          else (config, []))"

text \<open>Case 2, lines 244 to 263.\<close>

definition pruneAddDirs :: "string \<Rightarrow> string list option \<Rightarrow> string list option" where
  "pruneAddDirs p ds =
     (case ds of
        None \<Rightarrow> None
      | Some xs \<Rightarrow>
          let ys = filter (\<lambda>d. d \<noteq> p) xs in if length ys = 0 then None else Some ys)"

definition editCwd :: "env \<Rightarrow> nat \<Rightarrow> turn \<Rightarrow> Config \<Rightarrow> Config \<times> event list" where
  "editCwd e idx t config =
     (let ws = workspaces config ! idx in
      case prompt e (textValue t) of
        None \<Rightarrow> (config, [])
      | Some v \<Rightarrow>
          if v \<noteq> [] then
            (let p = resolvePath e v in
             if \<not> exists e p then (config, [ConsoleLog (NotFoundPath p)])
             else case findByCwd config p of
               None \<Rightarrow>
                 (let config' = setWorkspace config idx
                                  (ws\<lparr>cwd := p, addDirs := pruneAddDirs p (addDirs ws)\<rparr>)
                  in (config', [Save config']))
             | Some other \<Rightarrow>
                 if name other \<noteq> name ws then (config, [ConsoleLog (AlreadyUsedBy (name other))])
                 else
                   (let config' = setWorkspace config idx
                                    (ws\<lparr>cwd := p, addDirs := pruneAddDirs p (addDirs ws)\<rparr>)
                    in (config', [Save config'])))
          else (config, []))"

text \<open>Case 3, lines 264 to 314: the sub-menu of the additional directories.\<close>

definition addDirsLength :: "Workspace \<Rightarrow> nat" where
  "addDirsLength ws = (case addDirs ws of None \<Rightarrow> 0 | Some ds \<Rightarrow> length ds)"

definition editAddDirs :: "env \<Rightarrow> nat \<Rightarrow> turn \<Rightarrow> Config \<Rightarrow> Config \<times> event list" where
  "editAddDirs e idx t config =
     (let ws = workspaces config ! idx;
          action = select [''Add'', ''Remove'', ''Clear'', ''Back''] (actionSel t)
      in
      if action = Some 0 then
        (case prompt e (textValue t) of
           None \<Rightarrow> (config, [])
         | Some v \<Rightarrow>
             if v \<noteq> [] then
               (let p = resolvePath e v in
                if \<not> exists e p then (config, [ConsoleLog NotFound])
                else if p = cwd ws then (config, [ConsoleLog SameAsWorkingDirectory])
                else if (case addDirs ws of None \<Rightarrow> False | Some ds \<Rightarrow> p \<in> set ds)
                  then (config, [ConsoleLog AlreadyAdded])
                else
                  (let ds = (case addDirs ws of None \<Rightarrow> [] | Some ds \<Rightarrow> ds);
                       config' = setWorkspace config idx (ws\<lparr>addDirs := Some (ds @ [p])\<rparr>)
                   in (config', [Save config', ConsoleLog AddedDirectory])))
             else (config, []))
      else if action = Some 1 then
        (if addDirsLength ws = 0 then (config, [ConsoleLog NoDirectoriesToRemove])
         else
           (let ds = (case addDirs ws of None \<Rightarrow> [] | Some ds \<Rightarrow> ds) in
            case select ds (removeSel t) of
              None \<Rightarrow> (config, [])
            | Some di \<Rightarrow>
                (let ds' = splice1 di ds;
                     config' = setWorkspace config idx
                                 (ws\<lparr>addDirs := (if length ds' = 0 then None else Some ds')\<rparr>)
                 in (config', [Save config', ConsoleLog RemovedDirectory]))))
      else if action = Some 2 then
        (if addDirsLength ws \<noteq> 0 then
           (let config' = setWorkspace config idx (ws\<lparr>addDirs := None\<rparr>)
            in (config', [Save config', ConsoleLog ClearedAll]))
         else (config, []))
      else (config, []))"

text \<open>The switch over the field, lines 223 to 315.\<close>

definition editField :: "env \<Rightarrow> nat \<Rightarrow> nat \<Rightarrow> turn \<Rightarrow> Config \<Rightarrow> Config \<times> event list" where
  "editField e idx field t config =
     (if field = 0 then editName e idx t config
      else if field = 1 then editDescription e idx t config
      else if field = 2 then editCwd e idx t config
      else if field = 3 then editAddDirs e idx t config
      else (config, []))"

text \<open>
  \<^verbatim>\<open>editLoop\<close>, lines 209 to 318: one turn of the menu, then the loop again. The list
  of turns is the session: where it ends the user has left the menu.
\<close>

primrec editLoop :: "env \<Rightarrow> nat \<Rightarrow> turn list \<Rightarrow> Config \<Rightarrow> Config \<times> event list" where
  "editLoop e idx [] config = (config, [])"
| "editLoop e idx (t # ts) config =
     (case select [''Name'', ''Description'', ''Working dir'', ''Additional dirs'', ''Done'']
             (fieldSel t) of
        None \<Rightarrow> (config, [])
      | Some field \<Rightarrow>
          if field = 4 then (config, [])
          else
            (let step = editField e idx field t config;
                 rest = editLoop e idx ts (fst step)
             in (fst rest, snd step @ snd rest)))"

definition cmdEdit :: "env \<Rightarrow> ui \<Rightarrow> string list \<Rightarrow> Config \<Rightarrow> outcome" where
  "cmdEdit e u args config =
     (if length (workspaces config) = 0 then die NoWorkspacesConfigured
      else case chooseIndex e u args config of
        Inl out \<Rightarrow> out
      | Inr idx \<Rightarrow>
          if \<not> idx < length (workspaces config) then ([], Thrown)
          else (snd (editLoop e idx (turns u) config), Returned))"

subsection \<open>The list command\<close>

definition cmdLs :: "Config \<Rightarrow> outcome" where
  "cmdLs config =
     (if length (workspaces config) = 0
      then ([ConsoleLog NoWorkspacesListed, ConsoleLog NoWorkspacesHint], Returned)
      else (ConsoleLog Blank
              # concat (map (\<lambda>w. [ConsoleLog (PrintWorkspace w), ConsoleLog Blank])
                          (workspaces config)),
            Returned))"

subsection \<open>The launcher\<close>

text \<open>
  \<^verbatim>\<open>launch(ws)\<close>, lines 405 to 427. The event \<open>Spawn\<close> records a child that has been
  started; when \<^verbatim>\<open>Bun.spawn\<close> throws there is none, and the exception ends the command.
\<close>

definition launchArgs :: "Workspace \<Rightarrow> string list" where
  "launchArgs ws =
     ''claude'' # concat (map (\<lambda>d. [''--add-dir'', d])
                             (case addDirs ws of None \<Rightarrow> [] | Some ds \<Rightarrow> ds))"

definition launch :: "env \<Rightarrow> Workspace option \<Rightarrow> outcome" where
  "launch e wso =
     (case wso of
        None \<Rightarrow>
          (case Bun_spawn e [''claude''] None of
             SpawnThrows \<Rightarrow> ([ConsoleLog LaunchingClaude], Thrown)
           | Subprocess exitCode \<Rightarrow>
               ([ConsoleLog LaunchingClaude, Spawn [''claude''] None],
                Exited (case exitCode of None \<Rightarrow> 0 | Some c \<Rightarrow> c)))
      | Some ws \<Rightarrow>
          if \<not> exists e (cwd ws) then die (WorkingDirectoryNotFound (cwd ws))
          else
            (case find (\<lambda>d. \<not> exists e d)
                       (case addDirs ws of None \<Rightarrow> [] | Some ds \<Rightarrow> ds) of
               Some d \<Rightarrow> die (AdditionalDirectoryNotFound d)
             | None \<Rightarrow>
                 (case Bun_spawn e (launchArgs ws) (Some (cwd ws)) of
                    SpawnThrows \<Rightarrow>
                      ([ConsoleLog (Launching (name ws)), ConsoleLog (PrintWorkspace ws),
                        ConsoleLog Blank],
                       Thrown)
                  | Subprocess exitCode \<Rightarrow>
                      ([ConsoleLog (Launching (name ws)), ConsoleLog (PrintWorkspace ws),
                        ConsoleLog Blank, Spawn (launchArgs ws) (Some (cwd ws))],
                       Exited (case exitCode of None \<Rightarrow> 0 | Some c \<Rightarrow> c)))))"

text \<open>Events that happen before an outcome.\<close>

definition after :: "event list \<Rightarrow> outcome \<Rightarrow> outcome" where
  "after evs r = (evs @ fst r, snd r)"

text \<open>
  \<^verbatim>\<open>cmdLaunch(name)\<close>, lines 343 to 400: the launch by name, and the menus when no name
  is given.
\<close>

definition launchMenu :: "env \<Rightarrow> ui \<Rightarrow> Config \<Rightarrow> outcome" where
  "launchMenu e u config =
     (if length (workspaces config) = 0 then
        after [ConsoleLog Logo, ConsoleLog NoWorkspacesYet]
          (let i = select [''Add workspace'', ''Launch Claude''] (menuSel u) in
           if i = Some 0 then cmdAdd e u [] config
           else if i = Some 1 then launch e None
           else ([], Returned))
      else
        after [ConsoleLog Logo]
          (case select (map name (workspaces config) @ [''Claude'', ''Manage'']) (menuSel u) of
             None \<Rightarrow> ([], Returned)
           | Some i \<Rightarrow>
               let wsCount = length (workspaces config) in
               if i < wsCount then launch e (Some (workspaces config ! i))
               else if i = wsCount then launch e None
               else if i = wsCount + 1 then
                 (let a = select [''Add'', ''Edit'', ''Delete'', ''List''] (manageSel u) in
                  if a = Some 0 then cmdAdd e u [] config
                  else if a = Some 1 then cmdEdit e u [] config
                  else if a = Some 2 then cmdRm e u [] config
                  else if a = Some 3 then cmdLs config
                  else ([], Returned))
               else ([], Returned)))"

definition cmdLaunch :: "env \<Rightarrow> ui \<Rightarrow> string option \<Rightarrow> Config \<Rightarrow> outcome" where
  "cmdLaunch e u nameArg config =
     (case nameArg of
        None \<Rightarrow> launchMenu e u config
      | Some n \<Rightarrow>
          if n \<noteq> [] then
            (case findByName e config n of
               None \<Rightarrow> die (WorkspaceNotFound n)
             | Some ws \<Rightarrow> launch e (Some ws))
          else launchMenu e u config)"

subsection \<open>Notions of the properties\<close>

text \<open>
  The workspace \<^verbatim>\<open>cmdAdd\<close> appends when it saves, lines 136 to 141, as a function of
  the arguments and the answers.
\<close>

definition addedWorkspace :: "env \<Rightarrow> ui \<Rightarrow> string list \<Rightarrow> Workspace" where
  "addedWorkspace e u args =
     \<lparr>name = addName e args,
      description =
        (if args = [] then
           (case prompt e (promptValue u) of
              Some i \<Rightarrow> if i \<noteq> [] then i else addName e args
            | None \<Rightarrow> addName e args)
         else addName e args),
      cwd = addCwd e args,
      addDirs = (if newSet (addAddDirs e args) = [] then None
                 else Some (newSet (addAddDirs e args)))\<rparr>"

text \<open>
  The invariant of the optional field: when \<^verbatim>\<open>addDirs\<close> is present it is not empty,
  has no duplicate and does not hold the working directory.
\<close>

definition addDirsOk :: "Workspace \<Rightarrow> bool" where
  "addDirsOk ws =
     (case addDirs ws of
        None \<Rightarrow> True
      | Some ds \<Rightarrow> ds \<noteq> [] \<and> distinct ds \<and> cwd ws \<notin> set ds)"

definition registryOk :: "Config \<Rightarrow> bool" where
  "registryOk c = list_all addDirsOk (workspaces c)"

definition savesOk :: "event list \<Rightarrow> bool" where
  "savesOk evs = (\<forall>c. Save c \<in> set evs \<longrightarrow> registryOk c)"

subsection \<open>A platform, registries and answers to evaluate the commands on\<close>

text \<open>
  The texts below are ASCII. On ASCII, \<^verbatim>\<open>toLowerCase\<close> maps the letters A to Z to a to
  z and \<^verbatim>\<open>trim\<close> removes space, tab, line feed, vertical tab, form feed and carriage
  return at both ends. On the sample platform \<^verbatim>\<open>/srv/notes.txt\<close> is a regular file:
  it exists, and a child asked to start in it is refused.
\<close>

definition lowerChar :: "char \<Rightarrow> char" where
  "lowerChar c =
     (case map_of (zip ''ABCDEFGHIJKLMNOPQRSTUVWXYZ'' ''abcdefghijklmnopqrstuvwxyz'') c of
        Some l \<Rightarrow> l
      | None \<Rightarrow> c)"

definition isSpace :: "char \<Rightarrow> bool" where
  "isSpace c = (c \<in> set [CHR '' '', CHR 0x09, CHR 0x0A, CHR 0x0B, CHR 0x0C, CHR 0x0D])"

definition sampleEnv :: env where
  "sampleEnv =
     \<lparr>process_cwd = ''/work'', homedir = ''/home/u'',
      existsSync = (\<lambda>p. p \<in> set [''/work'', ''/home/u/a'', ''/srv/app'', ''/srv/lib'',
                                 ''/srv/notes.txt'']),
      path_join = (\<lambda>a b. a @ b),
      path_resolve = (\<lambda>s. if take 1 s = ''/'' then s else ''/work/'' @ s),
      path_basename = (\<lambda>p. rev (takeWhile (\<lambda>c. c \<noteq> CHR ''/'') (rev p))),
      toLowerCase = map lowerChar,
      trim = (\<lambda>s. rev (dropWhile isSpace (rev (dropWhile isSpace s)))),
      Bun_spawn = (\<lambda>argv dir. if dir = Some ''/srv/notes.txt'' then SpawnThrows
                               else Subprocess (Some 0))\<rparr>"

text \<open>The sample platform when every child starts, and exits with the code given.\<close>

definition exitsWith :: "int option \<Rightarrow> env" where
  "exitsWith code = sampleEnv\<lparr>Bun_spawn := (\<lambda>argv dir. Subprocess code)\<rparr>"

definition pick :: "int \<Rightarrow> selection" where
  "pick i = \<lparr>sel_error = False, selectedIndex = Some i\<rparr>"

definition cancelled :: selection where
  "cancelled = \<lparr>sel_error = False, selectedIndex = None\<rparr>"

definition answers :: "selection \<Rightarrow> ui" where
  "answers c = \<lparr>menuSel = cancelled, manageSel = cancelled, pickSel = cancelled,
                 confirmSel = c, promptValue = None, turns = []\<rparr>"

definition describes :: "string \<Rightarrow> ui" where
  "describes v = \<lparr>menuSel = cancelled, manageSel = cancelled, pickSel = cancelled,
                   confirmSel = pick 0, promptValue = Some v, turns = []\<rparr>"

definition editing :: "turn list \<Rightarrow> ui" where
  "editing ts = \<lparr>menuSel = cancelled, manageSel = cancelled, pickSel = cancelled,
                  confirmSel = cancelled, promptValue = None, turns = ts\<rparr>"

definition typed :: "int \<Rightarrow> string \<Rightarrow> turn" where
  "typed field v = \<lparr>fieldSel = pick field, textValue = Some v, actionSel = cancelled,
                     removeSel = cancelled\<rparr>"

definition addsDir :: "string \<Rightarrow> turn" where
  "addsDir v = \<lparr>fieldSel = pick 3, textValue = Some v, actionSel = pick 0,
                 removeSel = cancelled\<rparr>"

definition appOnly :: Config where
  "appOnly =
     \<lparr>workspaces =
        [\<lparr>name = ''App'', description = ''App'', cwd = ''/srv/app'', addDirs = None\<rparr>]\<rparr>"

definition appAndLib :: Config where
  "appAndLib =
     \<lparr>workspaces =
        [\<lparr>name = ''app'', description = ''app'', cwd = ''/srv/app'',
          addDirs = Some [''/srv/lib'']\<rparr>,
         \<lparr>name = ''lib'', description = ''lib'', cwd = ''/srv/lib'', addDirs = None\<rparr>]\<rparr>"

definition appWithDirs :: Config where
  "appWithDirs =
     \<lparr>workspaces =
        [\<lparr>name = ''app'', description = ''app'', cwd = ''/srv/app'',
          addDirs = Some [''/srv/lib'', ''/home/u/a'']\<rparr>]\<rparr>"

definition appWithGone :: Config where
  "appWithGone =
     \<lparr>workspaces =
        [\<lparr>name = ''app'', description = ''app'', cwd = ''/srv/app'',
          addDirs = Some [''/srv/gone'']\<rparr>]\<rparr>"

definition notesOnly :: Config where
  "notesOnly =
     \<lparr>workspaces =
        [\<lparr>name = ''notes'', description = ''notes'', cwd = ''/srv/notes.txt'',
          addDirs = None\<rparr>]\<rparr>"

section \<open>The config store\<close>

text \<open>
  \<^verbatim>\<open>load\<close> and \<^verbatim>\<open>save\<close>, lines 43 to 58, read and write the registry file through
  \<^verbatim>\<open>JSON.parse\<close> and \<^verbatim>\<open>JSON.stringify(c, null, 2)\<close>. Both are modelled on texts of
  8-bit characters, the bytes of the file: a character from 80 up is a byte of a UTF-8
  sequence, which neither function changes.
\<close>

subsection \<open>Values\<close>

text \<open>
  A value of the language as the two functions see it. A number keeps the text of its
  token, not its floating-point value. An object is the list of its properties in the
  order of their creation; a key that is an array index, which the language would list
  first, keeps its place here (no key of the registry file is one).
\<close>

datatype json =
    JNull
  | JBool bool
  | JNumber string
  | JString string
  | JArray "json list"
  | JObject "(string \<times> json) list"

text \<open>The double quote, the backslash and the line feed.\<close>

abbreviation DQ :: char where "DQ \<equiv> CHR 0x22"
abbreviation BS :: char where "BS \<equiv> CHR 0x5C"
abbreviation NL :: char where "NL \<equiv> CHR 0x0A"

subsection \<open>Serialisation\<close>

text \<open>
  \<^verbatim>\<open>QuoteJSONString\<close>: the quote and the backslash are escaped, the control characters
  are written with their short escape when they have one and as \<^verbatim>\<open>\u00XX\<close> in lower
  case otherwise, and every other character is copied.
\<close>

definition hexDigit :: "nat \<Rightarrow> char" where
  "hexDigit n = ''0123456789abcdef'' ! (n mod 16)"

definition escapeChar :: "char \<Rightarrow> string" where
  "escapeChar c =
     (if c = CHR 0x08 then [BS, CHR ''b'']
      else if c = CHR 0x09 then [BS, CHR ''t'']
      else if c = NL then [BS, CHR ''n'']
      else if c = CHR 0x0C then [BS, CHR ''f'']
      else if c = CHR 0x0D then [BS, CHR ''r'']
      else if c = DQ then [BS, DQ]
      else if c = BS then [BS, BS]
      else if (of_char c :: nat) < 0x20
        then [BS, CHR ''u'', CHR ''0'', CHR ''0'', hexDigit (of_char c div 16), hexDigit (of_char c)]
      else [c])"

definition quoteJSONString :: "string \<Rightarrow> string" where
  "quoteJSONString s = DQ # concat (map escapeChar s) @ [DQ]"

text \<open>
  \<^verbatim>\<open>JSON.stringify(v, null, 2)\<close>: an empty array or object is written closed; the
  elements of another are written one per line, two spaces deeper than the line of the
  opening bracket, with a comma between two of them, and the closing bracket has a line
  of its own; a key and its value are separated by a colon and a space. The number of a
  value is written as its token, which is what the language writes when the token is in
  its canonical form.
\<close>

definition spaces :: "nat \<Rightarrow> string" where
  "spaces n = replicate n (CHR '' '')"

fun stringifyValue :: "nat \<Rightarrow> json \<Rightarrow> string"
and stringifyElements :: "nat \<Rightarrow> json list \<Rightarrow> string"
and stringifyMembers :: "nat \<Rightarrow> (string \<times> json) list \<Rightarrow> string"
where
  "stringifyValue ind JNull = ''null''"
| "stringifyValue ind (JBool b) = (if b then ''true'' else ''false'')"
| "stringifyValue ind (JNumber n) = n"
| "stringifyValue ind (JString s) = quoteJSONString s"
| "stringifyValue ind (JArray vs) =
     (if vs = [] then ''[]''
      else ''['' @ stringifyElements (ind + 2) vs @ NL # spaces ind @ '']'')"
| "stringifyValue ind (JObject ms) =
     (if ms = [] then ''{}''
      else ''{'' @ stringifyMembers (ind + 2) ms @ NL # spaces ind @ ''}'')"
| "stringifyElements ind [] = []"
| "stringifyElements ind (v # vs) =
     NL # spaces ind @ stringifyValue ind v
       @ (if vs = [] then [] else '','' @ stringifyElements ind vs)"
| "stringifyMembers ind [] = []"
| "stringifyMembers ind (m # ms) =
     NL # spaces ind @ quoteJSONString (fst m) @ '': '' @ stringifyValue ind (snd m)
       @ (if ms = [] then [] else '','' @ stringifyMembers ind ms)"

definition JSON_stringify :: "json \<Rightarrow> string" where
  "JSON_stringify v = stringifyValue 0 v"

subsection \<open>Parsing\<close>

text \<open>
  The JSON grammar: white space is the space, the tab, the line feed and the carriage
  return; a string holds characters from 20 up other than the quote and the backslash,
  and escapes; a \<^verbatim>\<open>\uXXXX\<close> escape denotes a code unit, written here in UTF-8, a high
  and a low surrogate together denoting one character. The texts are taken to be
  well-formed UTF-8; a surrogate that stands alone, which is no character, is written as
  its three bytes.
\<close>

definition isWs :: "char \<Rightarrow> bool" where
  "isWs c = (c = CHR '' '' \<or> c = CHR 0x09 \<or> c = NL \<or> c = CHR 0x0D)"

definition skipWs :: "string \<Rightarrow> string" where
  "skipWs s = dropWhile isWs s"

definition hexVal :: "char \<Rightarrow> nat option" where
  "hexVal c = map_of (zip ''0123456789abcdefABCDEF''
                          [0, 1, 2, 3, 4, 5, 6, 7, 8, 9, 10, 11, 12, 13, 14, 15, 10, 11, 12, 13, 14, 15]) c"

definition hex4 :: "string \<Rightarrow> nat option" where
  "hex4 s =
     (case map hexVal s of
        [Some a, Some b, Some c, Some d] \<Rightarrow> Some (((a * 16 + b) * 16 + c) * 16 + d)
      | _ \<Rightarrow> None)"

definition utf8 :: "nat \<Rightarrow> string" where
  "utf8 n =
     (if n < 0x80 then [char_of n]
      else if n < 0x800 then [char_of (0xC0 + n div 64), char_of (0x80 + n mod 64)]
      else if n < 0x10000 then
        [char_of (0xE0 + n div 4096), char_of (0x80 + n div 64 mod 64), char_of (0x80 + n mod 64)]
      else [char_of (0xF0 + n div 262144), char_of (0x80 + n div 4096 mod 64),
            char_of (0x80 + n div 64 mod 64), char_of (0x80 + n mod 64)])"

definition unescape :: "char \<Rightarrow> char option" where
  "unescape c =
     map_of [(DQ, DQ), (BS, BS), (CHR ''/'', CHR ''/''), (CHR ''b'', CHR 0x08),
             (CHR ''f'', CHR 0x0C), (CHR ''n'', NL), (CHR ''r'', CHR 0x0D),
             (CHR ''t'', CHR 0x09)] c"

text \<open>One character of a string, or one escape: what it denotes and the rest.\<close>

definition stringChar :: "string \<Rightarrow> (string \<times> string) option" where
  "stringChar s =
     (case s of
        [] \<Rightarrow> None
      | c # r \<Rightarrow>
          if c = BS then
            (case r of
               [] \<Rightarrow> None
             | e # r' \<Rightarrow>
                 if e = CHR ''u'' then
                   (case hex4 (take 4 r') of
                      None \<Rightarrow> None
                    | Some hi \<Rightarrow>
                        if 0xD800 \<le> hi \<and> hi < 0xDC00 \<and> take 2 (drop 4 r') = [BS, CHR ''u''] then
                          (case hex4 (take 4 (drop 6 r')) of
                             None \<Rightarrow> None
                           | Some lo \<Rightarrow>
                               if 0xDC00 \<le> lo \<and> lo < 0xE000
                               then Some (utf8 (0x10000 + (hi - 0xD800) * 1024 + (lo - 0xDC00)),
                                          drop 10 r')
                               else Some (utf8 hi, drop 4 r'))
                        else Some (utf8 hi, drop 4 r'))
                 else (case unescape e of None \<Rightarrow> None | Some d \<Rightarrow> Some ([d], r')))
          else if (of_char c :: nat) < 0x20 then None
          else Some ([c], r))"

text \<open>
  The characters of a string up to the closing quote. The first argument bounds the
  number of characters read; \<open>parseString\<close> gives it the length of the text, and each
  step reads at least one.
\<close>

fun parseChars :: "nat \<Rightarrow> string \<Rightarrow> string \<Rightarrow> (string \<times> string) option" where
  "parseChars 0 acc s = None"
| "parseChars (Suc n) acc s =
     (case s of
        [] \<Rightarrow> None
      | c # r \<Rightarrow>
          if c = DQ then Some (acc, r)
          else (case stringChar s of
                  None \<Rightarrow> None
                | Some (d, r') \<Rightarrow> parseChars n (acc @ d) r'))"

definition parseString :: "string \<Rightarrow> (string \<times> string) option" where
  "parseString s = parseChars (length s) [] s"

definition isDigit :: "char \<Rightarrow> bool" where
  "isDigit c = (c \<in> set ''0123456789'')"

text \<open>
  The parts of a number token at the head of a text: the sign, the whole part (a single
  zero, or digits), the fraction (a point and digits) and the exponent (the letter, a
  sign and digits). Each is empty when the text does not start with it.
\<close>

definition numberSign :: "string \<Rightarrow> string" where
  "numberSign s = (if take 1 s = ''-'' then ''-'' else [])"

definition numberWhole :: "string \<Rightarrow> string" where
  "numberWhole s = (if take 1 s = ''0'' then ''0'' else takeWhile isDigit s)"

definition numberFraction :: "string \<Rightarrow> string" where
  "numberFraction s = (if take 1 s = ''.'' then CHR ''.'' # takeWhile isDigit (drop 1 s) else [])"

definition numberExponent :: "string \<Rightarrow> string" where
  "numberExponent s =
     (if take 1 s = ''e'' \<or> take 1 s = ''E'' then
        (if take 1 (drop 1 s) = ''+'' \<or> take 1 (drop 1 s) = ''-''
         then take 2 s @ takeWhile isDigit (drop 2 s)
         else take 1 s @ takeWhile isDigit (drop 1 s))
      else [])"

text \<open>
  The number token at the head of the text, if there is one: the whole part has a digit,
  and a fraction or an exponent that is started ends with a digit.
\<close>

definition numberToken :: "string \<Rightarrow> (string \<times> string) option" where
  "numberToken s =
     (let sign = numberSign s;
          s1 = drop (length sign) s;
          whole = numberWhole s1;
          s2 = drop (length whole) s1;
          fraction = numberFraction s2;
          s3 = drop (length fraction) s2;
          exponent = numberExponent s3;
          s4 = drop (length exponent) s3
      in if whole = [] \<or> fraction = ''.''
            \<or> (exponent \<noteq> [] \<and> \<not> isDigit (last exponent))
         then None
         else Some (sign @ whole @ fraction @ exponent, s4))"

text \<open>
  A property is set as an object of the language keeps it: a key already present keeps
  its place and takes the new value, a new key goes last.
\<close>

fun setProperty :: "(string \<times> json) list \<Rightarrow> string \<Rightarrow> json \<Rightarrow> (string \<times> json) list" where
  "setProperty [] k v = [(k, v)]"
| "setProperty (m # ms) k v = (if fst m = k then (k, v) # ms else m # setProperty ms k v)"

text \<open>
  A value, the elements of an array after its opening bracket, and the members of an
  object after its opening brace, each with the rest of the text. The first argument
  bounds the depth of the recursion: \<open>JSON_parse\<close> gives it more than the length of the
  text, which is enough for every text of the grammar (\<open>JSON_parse_any_bound\<close> below).
\<close>

fun parseValue :: "nat \<Rightarrow> string \<Rightarrow> (json \<times> string) option"
and parseElements :: "nat \<Rightarrow> json list \<Rightarrow> string \<Rightarrow> (json list \<times> string) option"
and parseMembers :: "nat \<Rightarrow> (string \<times> json) list \<Rightarrow> string \<Rightarrow> ((string \<times> json) list \<times> string) option"
where
  "parseValue 0 s = None"
| "parseValue (Suc n) s =
     (case skipWs s of
        [] \<Rightarrow> None
      | c # r \<Rightarrow>
          if c = CHR ''{'' then
            (case skipWs r of
               [] \<Rightarrow> None
             | c' # r' \<Rightarrow>
                 if c' = CHR ''}'' then Some (JObject [], r')
                 else (case parseMembers n [] r of
                         None \<Rightarrow> None
                       | Some (ms, r'') \<Rightarrow> Some (JObject ms, r'')))
          else if c = CHR ''['' then
            (case skipWs r of
               [] \<Rightarrow> None
             | c' # r' \<Rightarrow>
                 if c' = CHR '']'' then Some (JArray [], r')
                 else (case parseElements n [] r of
                         None \<Rightarrow> None
                       | Some (vs, r'') \<Rightarrow> Some (JArray vs, r'')))
          else if c = DQ then
            (case parseString r of
               None \<Rightarrow> None
             | Some (str, r') \<Rightarrow> Some (JString str, r'))
          else if take 4 (c # r) = ''true'' then Some (JBool True, drop 4 (c # r))
          else if take 5 (c # r) = ''false'' then Some (JBool False, drop 5 (c # r))
          else if take 4 (c # r) = ''null'' then Some (JNull, drop 4 (c # r))
          else (case numberToken (c # r) of
                  None \<Rightarrow> None
                | Some (tok, r') \<Rightarrow> Some (JNumber tok, r')))"
| "parseElements 0 acc s = None"
| "parseElements (Suc n) acc s =
     (case parseValue n s of
        None \<Rightarrow> None
      | Some (v, r) \<Rightarrow>
          (case skipWs r of
             [] \<Rightarrow> None
           | c # r' \<Rightarrow>
               if c = CHR '','' then parseElements n (acc @ [v]) r'
               else if c = CHR '']'' then Some (acc @ [v], r')
               else None))"
| "parseMembers 0 acc s = None"
| "parseMembers (Suc n) acc s =
     (case skipWs s of
        [] \<Rightarrow> None
      | q # r \<Rightarrow>
          if q \<noteq> DQ then None
          else (case parseString r of
                  None \<Rightarrow> None
                | Some (k, r1) \<Rightarrow>
                    (case skipWs r1 of
                       [] \<Rightarrow> None
                     | c # r2 \<Rightarrow>
                         if c \<noteq> CHR '':'' then None
                         else (case parseValue n r2 of
                                 None \<Rightarrow> None
                               | Some (v, r3) \<Rightarrow>
                                   (case skipWs r3 of
                                      [] \<Rightarrow> None
                                    | c' # r4 \<Rightarrow>
                                        if c' = CHR '','' then parseMembers n (setProperty acc k v) r4
                                        else if c' = CHR ''}'' then Some (setProperty acc k v, r4)
                                        else None)))))"

definition JSON_parse :: "string \<Rightarrow> json option" where
  "JSON_parse text =
     (case parseValue (Suc (length text)) text of
        None \<Rightarrow> None
      | Some (v, r) \<Rightarrow> if skipWs r = [] then Some v else None)"

subsection \<open>Load and save\<close>

text \<open>
  The registry file: absent (\<^verbatim>\<open>existsSync\<close> is false), present and unreadable
  (\<^verbatim>\<open>readFileSync\<close> throws), or present with a content.
\<close>

datatype configFile = Absent | Unreadable | Content string

text \<open>\<^verbatim>\<open>{ workspaces: [] }\<close>\<close>

definition emptyConfig :: json where
  "emptyConfig = JObject [(''workspaces'', JArray [])]"

text \<open>
  \<^verbatim>\<open>data?.workspaces\<close>: the property of an object, and nothing (\<^verbatim>\<open>undefined\<close>) for a
  missing property and for every value that is not an object.
\<close>

definition getProperty :: "json \<Rightarrow> string \<Rightarrow> json option" where
  "getProperty v k = (case v of JObject ms \<Rightarrow> map_of ms k | _ \<Rightarrow> None)"

definition isArray :: "json option \<Rightarrow> bool" where
  "isArray v = (case v of Some (JArray vs) \<Rightarrow> True | _ \<Rightarrow> False)"

text \<open>
  \<^verbatim>\<open>load()\<close>, lines 43 to 53: the value returned and what is printed. An exception of
  \<^verbatim>\<open>readFileSync\<close> or of \<^verbatim>\<open>JSON.parse\<close> is raised inside the \<^verbatim>\<open>try\<close> block, whose
  \<^verbatim>\<open>catch\<close> branch prints the warning: no exception leaves the function.
\<close>

definition load :: "configFile \<Rightarrow> json \<times> event list" where
  "load f =
     (case f of
        Absent \<Rightarrow> (emptyConfig, [])
      | Unreadable \<Rightarrow> (emptyConfig, [ConsoleError ConfigCorrupted])
      | Content text \<Rightarrow>
          (case JSON_parse text of
             None \<Rightarrow> (emptyConfig, [ConsoleError ConfigCorrupted])
           | Some data \<Rightarrow>
               if \<not> isArray (getProperty data ''workspaces'') then (emptyConfig, [])
               else (data, [])))"

text \<open>\<^verbatim>\<open>save(c)\<close>, lines 55 to 58: the file it leaves.\<close>

definition save :: "json \<Rightarrow> configFile" where
  "save c = Content (JSON_stringify c @ [NL])"

text \<open>
  The value of a registry of the documented shape, with the keys in the order in which
  \<^verbatim>\<open>cmdAdd\<close> creates them: it is what \<^verbatim>\<open>save\<close> receives at an event \<open>Save c\<close>.
\<close>

definition jsWorkspace :: "Workspace \<Rightarrow> json" where
  "jsWorkspace ws =
     JObject ([(''name'', JString (name ws)), (''description'', JString (description ws)),
               (''cwd'', JString (cwd ws))]
              @ (case addDirs ws of
                   None \<Rightarrow> []
                 | Some ds \<Rightarrow> [(''addDirs'', JArray (map JString ds))]))"

definition jsConfig :: "Config \<Rightarrow> json" where
  "jsConfig c = JObject [(''workspaces'', JArray (map jsWorkspace (workspaces c)))]"

text \<open>
  The values the round trip is proved for: without numbers, and with the keys of every
  object distinct.
\<close>

fun wfValue :: "json \<Rightarrow> bool"
and wfElements :: "json list \<Rightarrow> bool"
and wfMembers :: "(string \<times> json) list \<Rightarrow> bool"
where
  "wfValue JNull = True"
| "wfValue (JBool b) = True"
| "wfValue (JNumber n) = False"
| "wfValue (JString s) = True"
| "wfValue (JArray vs) = wfElements vs"
| "wfValue (JObject ms) = (wfMembers ms \<and> distinct (map fst ms))"
| "wfElements [] = True"
| "wfElements (v # vs) = (wfValue v \<and> wfElements vs)"
| "wfMembers [] = True"
| "wfMembers (m # ms) = (wfValue (snd m) \<and> wfMembers ms)"

text \<open>The first character of the text of a value.\<close>

definition opens :: "char \<Rightarrow> bool" where
  "opens c = (c \<in> {CHR ''n'', CHR ''t'', CHR ''f'', DQ, CHR ''['', CHR ''{''})"

section \<open>Properties\<close>

subsection \<open>Lookups and the set of additional directories\<close>

lemma findByName_collides:
  "(findByName e c n \<noteq> None) = (\<exists>w\<in>set (workspaces c). toLowerCase e (name w) = toLowerCase e n)"
  unfolding findByName_def by (auto simp: find_None_iff)

lemma findByCwd_collides:
  "(findByCwd c p \<noteq> None) = (\<exists>w\<in>set (workspaces c). cwd w = p)"
  unfolding findByCwd_def by (auto simp: find_None_iff)

lemma find_exists_None: "(find (\<lambda>d. \<not> P d) xs = None) = (\<forall>d\<in>set xs. P d)"
  by (auto simp: find_None_iff)

lemma findByName_None: "(findByName e c n = None) = (\<forall>w\<in>set (workspaces c). toLowerCase e (name w) \<noteq> toLowerCase e n)"
  unfolding findByName_def by (auto simp: find_None_iff)

lemma findByCwd_None: "(findByCwd c p = None) = (\<forall>w\<in>set (workspaces c). cwd w \<noteq> p)"
  unfolding findByCwd_def by (auto simp: find_None_iff)

lemma remdups_drop_later: "x \<in> set B \<Longrightarrow> remdups (A @ x # B) = remdups (A @ B)"
  by (induction A) auto

lemma setInsertAll_remdups:
  "distinct seen \<Longrightarrow> setInsertAll seen xs = rev (remdups (rev (seen @ xs)))"
proof (induction xs arbitrary: seen)
  case Nil
  then show ?case by (simp add: distinct_remdups_id)
next
  case (Cons x xs)
  show ?case
  proof (cases "x \<in> set seen")
    case True
    then have "remdups (rev xs @ x # rev seen) = remdups (rev xs @ rev seen)"
      by (intro remdups_drop_later) simp
    with True Cons show ?thesis by simp
  next
    case False
    with Cons.prems have "distinct (seen @ [x])" by simp
    from Cons.IH [OF this] False show ?thesis by simp
  qed
qed

lemma newSet_remdups: "newSet xs = rev (remdups (rev xs))"
  by (simp add: newSet_def setInsertAll_remdups)

lemma distinct_newSet: "distinct (newSet xs)"
  by (simp add: newSet_remdups)

lemma set_newSet: "set (newSet xs) = set xs"
  by (simp add: newSet_remdups)

lemma setInsertAll_subseq: "\<exists>ys. setInsertAll seen xs = seen @ ys \<and> subseq ys xs"
proof (induction xs arbitrary: seen)
  case Nil
  show ?case by simp
next
  case (Cons x xs)
  show ?case
  proof (cases "x \<in> set seen")
    case True
    from Cons.IH [of seen] obtain ys where "setInsertAll seen xs = seen @ ys" "subseq ys xs"
      by blast
    with True show ?thesis by auto
  next
    case False
    from Cons.IH [of "seen @ [x]"] obtain ys
      where "setInsertAll (seen @ [x]) xs = (seen @ [x]) @ ys" "subseq ys xs"
      by blast
    with False have "setInsertAll seen (x # xs) = seen @ (x # ys) \<and> subseq (x # ys) (x # xs)"
      by simp
    then show ?thesis by blast
  qed
qed

lemma subseq_newSet: "subseq (newSet xs) xs"
  using setInsertAll_subseq [of "[]" xs] by (auto simp: newSet_def)

lemma cmdAdd_saves_cases:
  "saves (cmdAdd e u args config) = [] \<or>
   saves (cmdAdd e u args config) = [config\<lparr>workspaces := workspaces config @ [addedWorkspace e u args]\<rparr>]"
  by (auto simp: cmdAdd_def Let_def die_def saves_def addedWorkspace_def split: option.splits)

lemma Save_in_saves: "(Save c \<in> set (fst r)) = (c \<in> set (saves r))"
  by (auto simp: saves_def split: event.splits)

lemmas sample_defs = sampleEnv_def pick_def cancelled_def answers_def editing_def typed_def
  addsDir_def appOnly_def appAndLib_def appWithDirs_def appWithGone_def

lemmas add_defs = cmdAdd_def addName_def addCwd_def addAddDirs_def arg_def resolvePath_def
  exists_def findByName_def findByCwd_def lowerChar_def die_def saves_def
  select_def prompt_def newSet_def Let_def

lemmas edit_defs = cmdEdit_def chooseIndex_def editField_def
  editName_def editDescription_def editCwd_def editAddDirs_def pruneAddDirs_def
  addDirsLength_def setWorkspace_def splice1_def isSpace_def arg_def resolvePath_def
  exists_def findByName_def findByCwd_def lowerChar_def die_def saves_def
  select_def prompt_def Let_def

subsection \<open>The add command\<close>

text \<open>
  C4. An add whose name collides, case-insensitively, with a workspace of the registry,
  or whose resolved working directory is the working directory of one, ends the process
  with exit code 1, and the registry is not saved.
\<close>

theorem cmdAdd_collision_is_fatal:
  assumes "(\<exists>w\<in>set (workspaces config). toLowerCase e (name w) = toLowerCase e (addName e args))
         \<or> (\<exists>w\<in>set (workspaces config). cwd w = addCwd e args)"
  shows "snd (cmdAdd e u args config) = Exited 1 \<and> saves (cmdAdd e u args config) = []"
proof -
  have "findByName e config (addName e args) \<noteq> None \<or> findByCwd config (addCwd e args) \<noteq> None"
    using assms by (simp only: findByName_collides findByCwd_collides)
  then show ?thesis
    by (auto simp: cmdAdd_def Let_def die_def saves_def split: option.splits)
qed

theorem cmdAdd_collision_is_fatal_witness:
  "(\<exists>w\<in>set (workspaces appOnly).
       toLowerCase sampleEnv (name w) = toLowerCase sampleEnv (addName sampleEnv [''APP'', ''/srv/lib'']))
   \<and> snd (cmdAdd sampleEnv (answers (pick 0)) [''APP'', ''/srv/lib''] appOnly) = Exited 1
   \<and> saves (cmdAdd sampleEnv (answers (pick 0)) [''APP'', ''/srv/lib''] appOnly) = []
   \<and> (\<exists>w\<in>set (workspaces appOnly). cwd w = addCwd sampleEnv [''other'', ''/srv/app''])
   \<and> snd (cmdAdd sampleEnv (answers (pick 0)) [''other'', ''/srv/app''] appOnly) = Exited 1
   \<and> saves (cmdAdd sampleEnv (answers (pick 0)) [''other'', ''/srv/app''] appOnly) = []"
proof -
  have h: "\<exists>w\<in>set (workspaces appOnly).
       toLowerCase sampleEnv (name w) = toLowerCase sampleEnv (addName sampleEnv [''APP'', ''/srv/lib''])"
    by (simp add: appOnly_def addName_def arg_def sampleEnv_def lowerChar_def)
  have g: "\<exists>w\<in>set (workspaces appOnly). cwd w = addCwd sampleEnv [''other'', ''/srv/app'']"
    by (simp add: appOnly_def addCwd_def arg_def resolvePath_def sampleEnv_def)
  from h cmdAdd_collision_is_fatal
    [of appOnly sampleEnv "[''APP'', ''/srv/lib'']" "answers (pick 0)"]
  have a: "snd (cmdAdd sampleEnv (answers (pick 0)) [''APP'', ''/srv/lib''] appOnly) = Exited 1
   \<and> saves (cmdAdd sampleEnv (answers (pick 0)) [''APP'', ''/srv/lib''] appOnly) = []"
    by blast
  from g cmdAdd_collision_is_fatal
    [of appOnly sampleEnv "[''other'', ''/srv/app'']" "answers (pick 0)"]
  have b: "snd (cmdAdd sampleEnv (answers (pick 0)) [''other'', ''/srv/app''] appOnly) = Exited 1
   \<and> saves (cmdAdd sampleEnv (answers (pick 0)) [''other'', ''/srv/app''] appOnly) = []"
    by blast
  from h a g b show ?thesis by blast
qed

lemma select_first:
  "(select [a, b] r = Some 0) = (\<not> sel_error r \<and> selectedIndex r = Some 0)"
  by (auto simp: select_def split: option.splits)

lemma cmdAdd_saves:
  "saves (cmdAdd e u args config) =
     (if exists e (addCwd e args) \<and> findByName e config (addName e args) = None
         \<and> findByCwd config (addCwd e args) = None
         \<and> find (\<lambda>d. \<not> exists e d) (addAddDirs e args) = None
         \<and> (args = [] \<longrightarrow> promptValue u \<noteq> None)
         \<and> select [''Save'', ''Cancel''] (confirmSel u) = Some 0
      then [config\<lparr>workspaces := workspaces config @ [addedWorkspace e u args]\<rparr>]
      else [])"
  by (auto simp: cmdAdd_def Let_def die_def saves_def addedWorkspace_def prompt_def
           split: option.splits)

text \<open>
  C5. The add command saves exactly when the working directory exists, no workspace of
  the registry has its name up to case or its working directory, every additional
  directory it keeps exists, the prompt of the description (asked when there is no
  argument) is answered, and the confirmation menu returns its first option. It then
  saves the registry once, with one workspace appended. The working directory of that
  workspace is the resolved second argument, or the current directory when there is
  none; its name is the first argument, or the final segment of the working directory
  when that argument is absent or empty; its description is the trimmed answer of the
  prompt, or the name when there is no prompt or the answer is empty; its additional
  directories are the resolved remaining arguments without the working directory and
  without duplicates, each kept at its first occurrence; and the field is absent when
  none remains.
\<close>

theorem cmdAdd_constructs_workspace:
  "\<exists>ws resolved kept.
       cwd ws = resolvePath e (case arg args 1 of Some a \<Rightarrow> a | None \<Rightarrow> [])
     \<and> name ws = (case arg args 0 of
                    None \<Rightarrow> path_basename e (cwd ws)
                  | Some a \<Rightarrow> if a = [] then path_basename e (cwd ws) else a)
     \<and> description ws =
         (if args = [] then
            (case promptValue u of
               None \<Rightarrow> name ws
             | Some v \<Rightarrow> if trim e v = [] then name ws else trim e v)
          else name ws)
     \<and> resolved = map (resolvePath e) (drop 2 args)
     \<and> kept = rev (remdups (rev (filter (\<lambda>d. d \<noteq> cwd ws) resolved)))
     \<and> distinct kept \<and> set kept = set resolved - {cwd ws} \<and> subseq kept resolved
     \<and> addDirs ws = (if kept = [] then None else Some kept)
     \<and> saves (cmdAdd e u args config) =
         (if exists e (cwd ws)
             \<and> (\<forall>w\<in>set (workspaces config).
                   toLowerCase e (name w) \<noteq> toLowerCase e (name ws) \<and> cwd w \<noteq> cwd ws)
             \<and> (\<forall>d\<in>set kept. exists e d)
             \<and> (args = [] \<longrightarrow> promptValue u \<noteq> None)
             \<and> \<not> sel_error (confirmSel u) \<and> selectedIndex (confirmSel u) = Some 0
          then [config\<lparr>workspaces := workspaces config @ [ws]\<rparr>]
          else [])"
proof -
  let ?ws = "addedWorkspace e u args"
  let ?resolved = "map (resolvePath e) (drop 2 args)"
  let ?kept = "rev (remdups (rev (filter (\<lambda>d. d \<noteq> cwd ?ws) ?resolved)))"
  have c: "cwd ?ws = addCwd e args" and n: "name ?ws = addName e args"
    by (simp_all add: addedWorkspace_def)
  have 1: "cwd ?ws = resolvePath e (case arg args 1 of Some a \<Rightarrow> a | None \<Rightarrow> [])"
    by (simp add: addedWorkspace_def addCwd_def)
  have 2: "name ?ws = (case arg args 0 of
                     None \<Rightarrow> path_basename e (cwd ?ws)
                   | Some a \<Rightarrow> if a = [] then path_basename e (cwd ?ws) else a)"
    by (simp add: addedWorkspace_def addName_def split: option.splits)
  have 3: "description ?ws =
         (if args = [] then
            (case promptValue u of
               None \<Rightarrow> name ?ws
             | Some v \<Rightarrow> if trim e v = [] then name ?ws else trim e v)
          else name ?ws)"
    by (simp add: addedWorkspace_def prompt_def split: option.splits)
  have k: "?kept = newSet (addAddDirs e args)"
    by (simp add: newSet_remdups addAddDirs_def addedWorkspace_def)
  have 4: "distinct ?kept" by simp
  have 5: "set ?kept = set ?resolved - {cwd ?ws}" by auto
  have "subseq (newSet (addAddDirs e args)) (addAddDirs e args)"
    by (rule subseq_newSet)
  moreover have "subseq (addAddDirs e args) ?resolved"
    by (simp add: addAddDirs_def)
  ultimately have 6: "subseq ?kept ?resolved"
    unfolding k by (rule subseq_order.trans)
  have 7: "addDirs ?ws = (if ?kept = [] then None else Some ?kept)"
    unfolding k by (simp add: addedWorkspace_def)
  have fd: "(find (\<lambda>d. \<not> exists e d) (addAddDirs e args) = None) = (\<forall>d\<in>set ?kept. exists e d)"
    unfolding k by (simp add: find_exists_None set_newSet)
  have fn: "(findByName e config (addName e args) = None)
          = (\<forall>w\<in>set (workspaces config). toLowerCase e (name w) \<noteq> toLowerCase e (name ?ws))"
    unfolding n by (rule findByName_None)
  have fc: "(findByCwd config (addCwd e args) = None)
          = (\<forall>w\<in>set (workspaces config). cwd w \<noteq> cwd ?ws)"
    unfolding c by (rule findByCwd_None)
  have cond: "(exists e (addCwd e args) \<and> findByName e config (addName e args) = None
         \<and> findByCwd config (addCwd e args) = None
         \<and> find (\<lambda>d. \<not> exists e d) (addAddDirs e args) = None
         \<and> (args = [] \<longrightarrow> promptValue u \<noteq> None)
         \<and> select [''Save'', ''Cancel''] (confirmSel u) = Some 0)
       = (exists e (cwd ?ws)
             \<and> (\<forall>w\<in>set (workspaces config).
                   toLowerCase e (name w) \<noteq> toLowerCase e (name ?ws) \<and> cwd w \<noteq> cwd ?ws)
             \<and> (\<forall>d\<in>set ?kept. exists e d)
             \<and> (args = [] \<longrightarrow> promptValue u \<noteq> None)
             \<and> \<not> sel_error (confirmSel u) \<and> selectedIndex (confirmSel u) = Some 0)"
    unfolding fd fn fc select_first c by blast
  have 8: "saves (cmdAdd e u args config) =
         (if exists e (cwd ?ws)
             \<and> (\<forall>w\<in>set (workspaces config).
                   toLowerCase e (name w) \<noteq> toLowerCase e (name ?ws) \<and> cwd w \<noteq> cwd ?ws)
             \<and> (\<forall>d\<in>set ?kept. exists e d)
             \<and> (args = [] \<longrightarrow> promptValue u \<noteq> None)
             \<and> \<not> sel_error (confirmSel u) \<and> selectedIndex (confirmSel u) = Some 0
          then [config\<lparr>workspaces := workspaces config @ [?ws]\<rparr>]
          else [])"
    unfolding cond [symmetric] by (rule cmdAdd_saves)
  from 1 2 3 4 5 6 7 8 show ?thesis by blast
qed

theorem cmdAdd_constructs_workspace_witness:
  "saves (cmdAdd sampleEnv (answers (pick 0))
            [''lib'', ''/srv/lib'', ''~/a'', ''/work'', ''~/a'', ''/srv/lib''] appOnly)
     = [appOnly\<lparr>workspaces := workspaces appOnly
          @ [\<lparr>name = ''lib'', description = ''lib'', cwd = ''/srv/lib'',
              addDirs = Some [''/home/u/a'', ''/work'']\<rparr>]\<rparr>]
   \<and> saves (cmdAdd sampleEnv (describes ''  my work '') [] appOnly)
     = [appOnly\<lparr>workspaces := workspaces appOnly
          @ [\<lparr>name = ''work'', description = ''my work'', cwd = ''/work'',
              addDirs = None\<rparr>]\<rparr>]"
proof -
  let ?args = "[''lib'', ''/srv/lib'', ''~/a'', ''/work'', ''~/a'', ''/srv/lib'']"
  from cmdAdd_constructs_workspace [of sampleEnv ?args "answers (pick 0)" appOnly]
  obtain ws kept where cw: "cwd ws = resolvePath sampleEnv (case arg ?args 1 of Some a \<Rightarrow> a | None \<Rightarrow> [])"
    and nm: "name ws = (case arg ?args 0 of
                    None \<Rightarrow> path_basename sampleEnv (cwd ws)
                  | Some a \<Rightarrow> if a = [] then path_basename sampleEnv (cwd ws) else a)"
    and ds: "description ws =
         (if ?args = [] then
            (case promptValue (answers (pick 0)) of
               None \<Rightarrow> name ws
             | Some v \<Rightarrow> if trim sampleEnv v = [] then name ws else trim sampleEnv v)
          else name ws)"
    and kp: "kept = rev (remdups (rev (filter (\<lambda>d. d \<noteq> cwd ws)
                           (map (resolvePath sampleEnv) (drop 2 ?args)))))"
    and ad: "addDirs ws = (if kept = [] then None else Some kept)"
    and sv: "saves (cmdAdd sampleEnv (answers (pick 0)) ?args appOnly) =
         (if exists sampleEnv (cwd ws)
             \<and> (\<forall>w\<in>set (workspaces appOnly).
                   toLowerCase sampleEnv (name w) \<noteq> toLowerCase sampleEnv (name ws)
                   \<and> cwd w \<noteq> cwd ws)
             \<and> (\<forall>d\<in>set kept. exists sampleEnv d)
             \<and> (?args = [] \<longrightarrow> promptValue (answers (pick 0)) \<noteq> None)
             \<and> \<not> sel_error (confirmSel (answers (pick 0)))
             \<and> selectedIndex (confirmSel (answers (pick 0))) = Some 0
          then [appOnly\<lparr>workspaces := workspaces appOnly @ [ws]\<rparr>]
          else [])"
    by blast
  from cw have cw': "cwd ws = ''/srv/lib''"
    by (simp add: sampleEnv_def arg_def resolvePath_def)
  from nm have nm': "name ws = ''lib''"
    by (simp add: arg_def)
  from ds have ds': "description ws = ''lib''"
    unfolding nm' by simp
  from kp have kp': "kept = [''/home/u/a'', ''/work'']"
    unfolding cw' by (simp add: sampleEnv_def resolvePath_def)
  from ad have ad': "addDirs ws = Some [''/home/u/a'', ''/work'']"
    unfolding kp' by simp
  from cw' nm' ds' ad'
  have ws: "ws = \<lparr>name = ''lib'', description = ''lib'', cwd = ''/srv/lib'',
                  addDirs = Some [''/home/u/a'', ''/work'']\<rparr>"
    by (cases ws) simp
  have a: "saves (cmdAdd sampleEnv (answers (pick 0)) ?args appOnly)
     = [appOnly\<lparr>workspaces := workspaces appOnly
          @ [\<lparr>name = ''lib'', description = ''lib'', cwd = ''/srv/lib'',
              addDirs = Some [''/home/u/a'', ''/work'']\<rparr>]\<rparr>]"
    unfolding sv kp' ws
    by (simp add: sample_defs exists_def lowerChar_def)
  from cmdAdd_constructs_workspace [of sampleEnv "[]" "describes ''  my work ''" appOnly]
  obtain ws2 kept2 where cw2: "cwd ws2 = resolvePath sampleEnv (case arg [] 1 of Some a \<Rightarrow> a | None \<Rightarrow> [])"
    and nm2: "name ws2 = (case arg [] 0 of
                    None \<Rightarrow> path_basename sampleEnv (cwd ws2)
                  | Some a \<Rightarrow> if a = [] then path_basename sampleEnv (cwd ws2) else a)"
    and ds2: "description ws2 =
         (if ([] :: string list) = [] then
            (case promptValue (describes ''  my work '') of
               None \<Rightarrow> name ws2
             | Some v \<Rightarrow> if trim sampleEnv v = [] then name ws2 else trim sampleEnv v)
          else name ws2)"
    and kp2: "kept2 = rev (remdups (rev (filter (\<lambda>d. d \<noteq> cwd ws2)
                           (map (resolvePath sampleEnv) (drop 2 [])))))"
    and ad2: "addDirs ws2 = (if kept2 = [] then None else Some kept2)"
    and sv2: "saves (cmdAdd sampleEnv (describes ''  my work '') [] appOnly) =
         (if exists sampleEnv (cwd ws2)
             \<and> (\<forall>w\<in>set (workspaces appOnly).
                   toLowerCase sampleEnv (name w) \<noteq> toLowerCase sampleEnv (name ws2)
                   \<and> cwd w \<noteq> cwd ws2)
             \<and> (\<forall>d\<in>set kept2. exists sampleEnv d)
             \<and> (([] :: string list) = [] \<longrightarrow> promptValue (describes ''  my work '') \<noteq> None)
             \<and> \<not> sel_error (confirmSel (describes ''  my work ''))
             \<and> selectedIndex (confirmSel (describes ''  my work '')) = Some 0
          then [appOnly\<lparr>workspaces := workspaces appOnly @ [ws2]\<rparr>]
          else [])"
    by blast
  from cw2 have cw2': "cwd ws2 = ''/work''"
    by (simp add: sampleEnv_def arg_def resolvePath_def)
  from nm2 have nm2': "name ws2 = ''work''"
    unfolding cw2' by (simp add: arg_def sampleEnv_def)
  from ds2 have ds2': "description ws2 = ''my work''"
    unfolding nm2' by (simp add: describes_def sampleEnv_def isSpace_def)
  from kp2 have kp2': "kept2 = []"
    by simp
  from ad2 have ad2': "addDirs ws2 = None"
    unfolding kp2' by simp
  from cw2' nm2' ds2' ad2'
  have ws2: "ws2 = \<lparr>name = ''work'', description = ''my work'', cwd = ''/work'', addDirs = None\<rparr>"
    by (cases ws2) simp
  have b: "saves (cmdAdd sampleEnv (describes ''  my work '') [] appOnly)
     = [appOnly\<lparr>workspaces := workspaces appOnly
          @ [\<lparr>name = ''work'', description = ''my work'', cwd = ''/work'',
              addDirs = None\<rparr>]\<rparr>]"
    unfolding sv2 kp2' ws2
    by (simp add: sample_defs describes_def exists_def lowerChar_def)
  from a b show ?thesis by (rule conjI)
qed

text \<open>
  C10. With arguments that pass every validation, the add command saves only when the
  confirmation menu returns its first option without an error: it then saves the registry
  with one workspace appended. On any other answer nothing is saved. Either way the
  command returns.
\<close>

theorem cmdAdd_saves_only_on_confirm:
  assumes "args \<noteq> []"
      and "exists e (addCwd e args)"
      and "\<forall>w\<in>set (workspaces config).
             toLowerCase e (name w) \<noteq> toLowerCase e (addName e args) \<and> cwd w \<noteq> addCwd e args"
      and "\<forall>d\<in>set (addAddDirs e args). exists e d"
  shows "(if \<not> sel_error (confirmSel u) \<and> selectedIndex (confirmSel u) = Some 0
          then \<exists>ws. saves (cmdAdd e u args config)
                       = [config\<lparr>workspaces := workspaces config @ [ws]\<rparr>]
          else saves (cmdAdd e u args config) = [])
         \<and> snd (cmdAdd e u args config) = Returned"
proof -
  have n: "findByName e config (addName e args) = None"
    using assms(3) by (simp add: findByName_None)
  have c: "findByCwd config (addCwd e args) = None"
    using assms(3) by (simp add: findByCwd_None)
  have d: "find (\<lambda>d. \<not> exists e d) (addAddDirs e args) = None"
    using assms(4) by (simp add: find_exists_None)
  show ?thesis
    using assms(1,2) n c d
    by (auto simp: cmdAdd_def Let_def saves_def select_def split: option.splits)
qed

theorem cmdAdd_saves_only_on_confirm_witness:
  "saves (cmdAdd sampleEnv (answers (pick 0)) [''lib'', ''/srv/lib''] appOnly)
     = [appOnly\<lparr>workspaces := workspaces appOnly
          @ [\<lparr>name = ''lib'', description = ''lib'', cwd = ''/srv/lib'', addDirs = None\<rparr>]\<rparr>]
   \<and> saves (cmdAdd sampleEnv (answers (pick 1)) [''lib'', ''/srv/lib''] appOnly) = []
   \<and> snd (cmdAdd sampleEnv (answers (pick 1)) [''lib'', ''/srv/lib''] appOnly) = Returned"
proof -
  let ?args = "[''lib'', ''/srv/lib'']"
  have 1: "?args \<noteq> []" by simp
  have 2: "exists sampleEnv (addCwd sampleEnv ?args)"
    by (simp add: sample_defs add_defs)
  have 3: "\<forall>w\<in>set (workspaces appOnly).
             toLowerCase sampleEnv (name w) \<noteq> toLowerCase sampleEnv (addName sampleEnv ?args)
             \<and> cwd w \<noteq> addCwd sampleEnv ?args"
    by (simp add: sample_defs add_defs)
  have 4: "\<forall>d\<in>set (addAddDirs sampleEnv ?args). exists sampleEnv d"
    by (simp add: sample_defs add_defs)
  from cmdAdd_saves_only_on_confirm [OF 1 2 3 4, of "answers (pick 1)"]
  have "saves (cmdAdd sampleEnv (answers (pick 1)) ?args appOnly) = []
      \<and> snd (cmdAdd sampleEnv (answers (pick 1)) ?args appOnly) = Returned"
    by (simp add: answers_def pick_def)
  moreover have "saves (cmdAdd sampleEnv (answers (pick 0)) ?args appOnly)
     = [appOnly\<lparr>workspaces := workspaces appOnly
          @ [\<lparr>name = ''lib'', description = ''lib'', cwd = ''/srv/lib'', addDirs = None\<rparr>]\<rparr>]"
    by (simp add: sample_defs add_defs)
  ultimately show ?thesis by simp
qed

subsection \<open>The launcher\<close>

lemma add_dir_pairs_length: "length (concat (map (\<lambda>d. [f, d]) ds)) = 2 * length ds"
  by (induction ds) auto

lemma add_dir_pairs_nth:
  "i < length ds \<Longrightarrow>
     concat (map (\<lambda>d. [f, d]) ds) ! (2 * i) = f \<and> concat (map (\<lambda>d. [f, d]) ds) ! (2 * i + 1) = ds ! i"
proof (induction ds arbitrary: i)
  case Nil
  then show ?case by simp
next
  case (Cons d ds)
  show ?case
  proof (cases i)
    case 0
    then show ?thesis by simp
  next
    case (Suc j)
    with Cons.prems have "j < length ds" by simp
    from Cons.IH [OF this] Suc show ?thesis by simp
  qed
qed

text \<open>
  C3. A launch by name of a workspace whose working directory or one of whose additional
  directories does not exist ends the process with exit code 1 and spawns nothing; and
  whenever a launch by name spawns a process, the working directory and every additional
  directory of the workspace exist.
\<close>

theorem launch_by_name_revalidates:
  assumes "n \<noteq> []" and "findByName e config n = Some ws"
  shows "((\<not> exists e (cwd ws)
           \<or> (\<exists>d\<in>set (case addDirs ws of None \<Rightarrow> [] | Some ds \<Rightarrow> ds). \<not> exists e d))
            \<longrightarrow> snd (cmdLaunch e u (Some n) config) = Exited 1
                \<and> spawns (cmdLaunch e u (Some n) config) = [])
       \<and> (spawns (cmdLaunch e u (Some n) config) \<noteq> []
            \<longrightarrow> exists e (cwd ws)
                \<and> (\<forall>d\<in>set (case addDirs ws of None \<Rightarrow> [] | Some ds \<Rightarrow> ds). exists e d))"
proof -
  let ?dirs = "case addDirs ws of None \<Rightarrow> [] | Some ds \<Rightarrow> ds"
  have l: "cmdLaunch e u (Some n) config = launch e (Some ws)"
    using assms by (simp add: cmdLaunch_def)
  have bad: "snd (launch e (Some ws)) = Exited 1
           \<and> spawns (launch e (Some ws)) = []"
    if "\<not> exists e (cwd ws) \<or> (\<exists>d\<in>set ?dirs. \<not> exists e d)"
  proof (cases "exists e (cwd ws)")
    case False
    then show ?thesis by (simp add: launch_def die_def spawns_def)
  next
    case True
    with that have "find (\<lambda>d. \<not> exists e d) ?dirs \<noteq> None"
      by (auto simp: find_None_iff)
    then obtain d where "find (\<lambda>d. \<not> exists e d) ?dirs = Some d" by blast
    with True show ?thesis by (simp add: launch_def die_def spawns_def)
  qed
  then show ?thesis unfolding l by blast
qed

theorem launch_by_name_revalidates_witness:
  "findByName sampleEnv appWithGone ''APP'' = Some (hd (workspaces appWithGone))
   \<and> \<not> exists sampleEnv ''/srv/gone''
   \<and> snd (cmdLaunch sampleEnv (answers cancelled) (Some ''APP'') appWithGone) = Exited 1
   \<and> spawns (cmdLaunch sampleEnv (answers cancelled) (Some ''APP'') appWithGone) = []"
proof -
  let ?ws = "hd (workspaces appWithGone)"
  have 1: "''APP'' \<noteq> []" by simp
  have 2: "findByName sampleEnv appWithGone ''APP'' = Some ?ws"
    by (simp add: appWithGone_def findByName_def sampleEnv_def lowerChar_def)
  have 3: "\<not> exists sampleEnv ''/srv/gone''"
    by (simp add: exists_def sampleEnv_def)
  have 4: "\<not> exists sampleEnv (cwd ?ws)
       \<or> (\<exists>d\<in>set (case addDirs ?ws of None \<Rightarrow> [] | Some ds \<Rightarrow> ds). \<not> exists sampleEnv d)"
    using 3 by (simp add: appWithGone_def)
  from launch_by_name_revalidates [OF 1 2, of "answers cancelled"] 4
  have "snd (cmdLaunch sampleEnv (answers cancelled) (Some ''APP'') appWithGone) = Exited 1
   \<and> spawns (cmdLaunch sampleEnv (answers cancelled) (Some ''APP'') appWithGone) = []"
    by blast
  with 2 3 show ?thesis by blast
qed

text \<open>
  C6, as the code has it. For a workspace whose working directory and additional
  directories all exist, the launcher asks for one child: its working directory is the
  workspace's, and its arguments are the program name followed, for the additional
  directory at each position \<open>i\<close>, by the flag at position \<open>2 i + 1\<close> and the directory at
  position \<open>2 i + 2\<close>. When the platform starts the child, the spawn is the last event of
  the launcher, and the process exits with the exit code of the child, or with 0 when
  the child has none. When the platform refuses, no child is spawned and the exception
  ends the command.
\<close>

theorem launch_spawns_claude:
  assumes "exists e (cwd ws)"
      and "\<forall>d\<in>set (case addDirs ws of None \<Rightarrow> [] | Some ds \<Rightarrow> ds). exists e d"
  shows "\<exists>argv dirs before.
           dirs = (case addDirs ws of None \<Rightarrow> [] | Some ds \<Rightarrow> ds)
         \<and> argv = ''claude'' # concat (map (\<lambda>d. [''--add-dir'', d]) dirs)
         \<and> length argv = 1 + 2 * length dirs
         \<and> (\<forall>i<length dirs. argv ! (2 * i + 1) = ''--add-dir'' \<and> argv ! (2 * i + 2) = dirs ! i)
         \<and> (case Bun_spawn e argv (Some (cwd ws)) of
              Subprocess exitCode \<Rightarrow>
                  spawns (launch e (Some ws)) = [(argv, Some (cwd ws))]
                \<and> fst (launch e (Some ws)) = before @ [Spawn argv (Some (cwd ws))]
                \<and> snd (launch e (Some ws)) = Exited (case exitCode of None \<Rightarrow> 0 | Some c \<Rightarrow> c)
            | SpawnThrows \<Rightarrow>
                  spawns (launch e (Some ws)) = []
                \<and> snd (launch e (Some ws)) = Thrown)"
proof -
  let ?dirs = "case addDirs ws of None \<Rightarrow> [] | Some ds \<Rightarrow> ds"
  let ?argv = "''claude'' # concat (map (\<lambda>d. [''--add-dir'', d]) ?dirs)"
  let ?before = "[ConsoleLog (Launching (name ws)), ConsoleLog (PrintWorkspace ws), ConsoleLog Blank]"
  have f: "find (\<lambda>d. \<not> exists e d) ?dirs = None"
    using assms(2) by (simp add: find_exists_None)
  have 1: "length ?argv = 1 + 2 * length ?dirs"
    by (simp add: add_dir_pairs_length)
  have 2: "\<forall>i<length ?dirs. ?argv ! (2 * i + 1) = ''--add-dir'' \<and> ?argv ! (2 * i + 2) = ?dirs ! i"
    using add_dir_pairs_nth [of _ ?dirs "''--add-dir''"] by simp
  have 3: "case Bun_spawn e ?argv (Some (cwd ws)) of
              Subprocess exitCode \<Rightarrow>
                  spawns (launch e (Some ws)) = [(?argv, Some (cwd ws))]
                \<and> fst (launch e (Some ws)) = ?before @ [Spawn ?argv (Some (cwd ws))]
                \<and> snd (launch e (Some ws)) = Exited (case exitCode of None \<Rightarrow> 0 | Some c \<Rightarrow> c)
            | SpawnThrows \<Rightarrow>
                  spawns (launch e (Some ws)) = []
                \<and> snd (launch e (Some ws)) = Thrown"
    using assms(1) f
    by (simp add: launch_def launchArgs_def spawns_def split: subprocess.splits)
  from 1 2 3 show ?thesis by blast
qed

theorem launch_spawns_claude_witness:
  "exists (exitsWith (Some 3)) ''/srv/app'' \<and> exists (exitsWith (Some 3)) ''/srv/lib''
   \<and> exists (exitsWith (Some 3)) ''/home/u/a''
   \<and> spawns (launch (exitsWith (Some 3)) (Some (hd (workspaces appWithDirs))))
       = [([''claude'', ''--add-dir'', ''/srv/lib'', ''--add-dir'', ''/home/u/a''], Some ''/srv/app'')]
   \<and> snd (launch (exitsWith (Some 3)) (Some (hd (workspaces appWithDirs)))) = Exited 3
   \<and> snd (launch (exitsWith None) (Some (hd (workspaces appWithDirs)))) = Exited 0
   \<and> exists sampleEnv ''/srv/notes.txt''
   \<and> spawns (launch sampleEnv (Some (hd (workspaces notesOnly)))) = []
   \<and> snd (launch sampleEnv (Some (hd (workspaces notesOnly)))) = Thrown"
proof -
  let ?ws = "hd (workspaces appWithDirs)"
  let ?notes = "hd (workspaces notesOnly)"
  have e: "exists (exitsWith (Some 3)) ''/srv/app''" "exists (exitsWith (Some 3)) ''/srv/lib''"
    "exists (exitsWith (Some 3)) ''/home/u/a''" "exists sampleEnv ''/srv/notes.txt''"
    by (simp_all add: exists_def exitsWith_def sampleEnv_def)
  have 1: "exists (exitsWith code) (cwd ?ws)" for code
    by (simp add: appWithDirs_def exists_def exitsWith_def sampleEnv_def)
  have 2: "\<forall>d\<in>set (case addDirs ?ws of None \<Rightarrow> [] | Some ds \<Rightarrow> ds). exists (exitsWith code) d"
    for code
    by (simp add: appWithDirs_def exists_def exitsWith_def sampleEnv_def)
  have s: "Bun_spawn (exitsWith code) argv dir = Subprocess code" for code argv dir
    by (simp add: exitsWith_def)
  from launch_spawns_claude [OF 1 2, of "Some 3"]
  have a: "spawns (launch (exitsWith (Some 3)) (Some ?ws))
       = [([''claude'', ''--add-dir'', ''/srv/lib'', ''--add-dir'', ''/home/u/a''], Some ''/srv/app'')]
     \<and> snd (launch (exitsWith (Some 3)) (Some ?ws)) = Exited 3"
    unfolding s by (auto simp: appWithDirs_def)
  from launch_spawns_claude [OF 1 2, of None]
  have b: "snd (launch (exitsWith None) (Some ?ws)) = Exited 0"
    unfolding s by auto
  have 3: "exists sampleEnv (cwd ?notes)"
    using e(4) by (simp add: notesOnly_def)
  have 4: "\<forall>d\<in>set (case addDirs ?notes of None \<Rightarrow> [] | Some ds \<Rightarrow> ds). exists sampleEnv d"
    by (simp add: notesOnly_def)
  have t: "Bun_spawn sampleEnv argv (Some (cwd ?notes)) = SpawnThrows" for argv
    by (simp add: notesOnly_def sampleEnv_def)
  from launch_spawns_claude [OF 3 4]
  have c: "spawns (launch sampleEnv (Some ?notes)) = [] \<and> snd (launch sampleEnv (Some ?notes)) = Thrown"
    unfolding t by auto
  from e a b c show ?thesis by blast
qed

text \<open>
  The claim C6 as the specification states it fails. The path \<^verbatim>\<open>/srv/notes.txt\<close> exists
  and is a regular file. The add command registers it as a working directory, the
  launcher finds that it exists, and \<^verbatim>\<open>Bun.spawn\<close> throws: the workspace passes the
  validation of the launcher, no child is spawned, and the command ends at the exception
  instead of the exit code of a child.
\<close>

theorem launch_spawn_throws:
  "saves (cmdAdd sampleEnv (answers (pick 0)) [''notes'', ''/srv/notes.txt'']
            \<lparr>workspaces = []\<rparr>) = [notesOnly]
   \<and> exists sampleEnv (cwd (hd (workspaces notesOnly)))
   \<and> addDirs (hd (workspaces notesOnly)) = None
   \<and> Bun_spawn sampleEnv [''claude''] (Some ''/srv/notes.txt'') = SpawnThrows
   \<and> launch sampleEnv (Some (hd (workspaces notesOnly)))
       = ([ConsoleLog (Launching ''notes''),
           ConsoleLog (PrintWorkspace (hd (workspaces notesOnly))),
           ConsoleLog Blank],
          Thrown)
   \<and> spawns (cmdLaunch sampleEnv (answers cancelled) (Some ''notes'') notesOnly) = []
   \<and> snd (cmdLaunch sampleEnv (answers cancelled) (Some ''notes'') notesOnly) = Thrown"
  by (simp add: sample_defs add_defs notesOnly_def launch_def launchArgs_def cmdLaunch_def
        spawns_def)

subsection \<open>The invariant of the additional directories\<close>

lemma registryOk_nth: "registryOk c \<Longrightarrow> i < length (workspaces c) \<Longrightarrow> addDirsOk (workspaces c ! i)"
  by (simp add: registryOk_def list_all_length)

lemma registryOk_setWorkspace:
  "registryOk c \<Longrightarrow> addDirsOk ws \<Longrightarrow> registryOk (setWorkspace c i ws)"
  unfolding registryOk_def setWorkspace_def list_all_iff
  using set_update_subset_insert [of "workspaces c" i ws] by auto

lemma savesOk_simps [simp]:
  "savesOk []"
  "savesOk (ConsoleLog m # evs) = savesOk evs"
  "savesOk (Save c # evs) = (registryOk c \<and> savesOk evs)"
  "savesOk (evs @ evs') = (savesOk evs \<and> savesOk evs')"
  by (auto simp: savesOk_def)

lemma addDirsOk_name [simp]: "addDirsOk (ws\<lparr>name := v\<rparr>) = addDirsOk ws"
  by (simp add: addDirsOk_def split: option.splits)

lemma addDirsOk_description [simp]: "addDirsOk (ws\<lparr>description := v\<rparr>) = addDirsOk ws"
  by (simp add: addDirsOk_def split: option.splits)

lemma addDirsOk_None [simp]: "addDirsOk (ws\<lparr>addDirs := None\<rparr>)"
  by (simp add: addDirsOk_def)

lemma addDirsOk_prune:
  "addDirsOk ws \<Longrightarrow> addDirsOk (ws\<lparr>cwd := p, addDirs := pruneAddDirs p (addDirs ws)\<rparr>)"
  by (auto simp: addDirsOk_def pruneAddDirs_def Let_def split: option.splits)

lemma distinct_splice1:
  assumes "distinct xs"
  shows "distinct (splice1 i xs)"
proof -
  from assms have "distinct (take i xs @ drop i xs)" by simp
  then have "distinct (take i xs)" "distinct (drop i xs)" "set (take i xs) \<inter> set (drop i xs) = {}"
    by (simp_all only: distinct_append)
  moreover have "set (drop (Suc i) xs) \<subseteq> set (drop i xs)"
    by (rule set_drop_subset_set_drop) simp
  moreover have "distinct (drop (Suc i) xs)"
    using assms by (rule distinct_drop)
  ultimately show ?thesis
    unfolding splice1_def by auto
qed

lemma set_splice1: "set (splice1 i xs) \<subseteq> set xs"
  unfolding splice1_def using set_take_subset [of i xs] set_drop_subset [of "Suc i" xs] by auto

lemma editName_ok:
  assumes "registryOk c" "idx < length (workspaces c)"
  shows "registryOk (fst (editName e idx t c)) \<and> savesOk (snd (editName e idx t c))"
  using assms registryOk_nth [OF assms]
  by (auto simp: editName_def Let_def registryOk_setWorkspace split: option.splits)

lemma editDescription_ok:
  assumes "registryOk c" "idx < length (workspaces c)"
  shows "registryOk (fst (editDescription e idx t c)) \<and> savesOk (snd (editDescription e idx t c))"
  using assms registryOk_nth [OF assms]
  by (auto simp: editDescription_def Let_def registryOk_setWorkspace split: option.splits)

lemma editCwd_ok:
  assumes "registryOk c" "idx < length (workspaces c)"
  shows "registryOk (fst (editCwd e idx t c)) \<and> savesOk (snd (editCwd e idx t c))"
  using assms registryOk_nth [OF assms]
  by (auto simp: editCwd_def Let_def registryOk_setWorkspace addDirsOk_prune split: option.splits)

lemma addDirsOk_push:
  assumes "addDirsOk ws" "p \<noteq> cwd ws"
      and "\<not> (case addDirs ws of None \<Rightarrow> False | Some ds \<Rightarrow> p \<in> set ds)"
  shows "addDirsOk (ws\<lparr>addDirs := Some ((case addDirs ws of None \<Rightarrow> [] | Some ds \<Rightarrow> ds) @ [p])\<rparr>)"
  using assms by (auto simp: addDirsOk_def split: option.splits)

lemma addDirsOk_splice:
  assumes "addDirsOk ws" "addDirs ws = Some ds"
  shows "addDirsOk (ws\<lparr>addDirs := (if length (splice1 di ds) = 0 then None else Some (splice1 di ds))\<rparr>)"
  using assms distinct_splice1 [of ds di] set_splice1 [of di ds]
  by (auto simp: addDirsOk_def split: option.splits)

lemma editAddDirs_ok:
  assumes "registryOk c" "idx < length (workspaces c)"
  shows "registryOk (fst (editAddDirs e idx t c)) \<and> savesOk (snd (editAddDirs e idx t c))"
proof -
  let ?ws = "workspaces c ! idx"
  have ws: "addDirsOk ?ws" using assms by (rule registryOk_nth)
  let ?action = "select [''Add'', ''Remove'', ''Clear'', ''Back''] (actionSel t)"
  consider (a0) "?action = Some 0" | (a1) "?action = Some 1" | (a2) "?action = Some 2"
    | (other) "?action \<noteq> Some 0" "?action \<noteq> Some 1" "?action \<noteq> Some 2"
    by blast
  then show ?thesis
  proof cases
    case a0
    then show ?thesis
      using assms(1) ws
      by (auto simp: editAddDirs_def Let_def registryOk_setWorkspace addDirsOk_push
               split: option.splits)
  next
    case a1
    show ?thesis
    proof (cases "addDirs ?ws")
      case None
      with a1 assms(1) show ?thesis
        by (simp add: editAddDirs_def Let_def addDirsLength_def)
    next
      case (Some ds)
      with a1 assms(1) ws addDirsOk_splice [OF ws Some] show ?thesis
        by (auto simp: editAddDirs_def Let_def addDirsLength_def registryOk_setWorkspace
                 split: option.splits)
    qed
  next
    case a2
    then show ?thesis
      using assms(1)
      by (auto simp: editAddDirs_def Let_def registryOk_setWorkspace)
  next
    case other
    then show ?thesis
      using assms(1) by (simp add: editAddDirs_def Let_def)
  qed
qed

lemma editField_ok:
  assumes "registryOk c" "idx < length (workspaces c)"
  shows "registryOk (fst (editField e idx f t c)) \<and> savesOk (snd (editField e idx f t c))"
  using editName_ok [OF assms] editDescription_ok [OF assms] editCwd_ok [OF assms]
    editAddDirs_ok [OF assms] assms(1)
  by (simp add: editField_def)

lemma length_setWorkspace [simp]: "length (workspaces (setWorkspace c i ws)) = length (workspaces c)"
  by (simp add: setWorkspace_def)

lemma editField_length: "length (workspaces (fst (editField e idx f t c))) = length (workspaces c)"
  by (auto simp: editField_def editName_def editDescription_def editCwd_def editAddDirs_def Let_def
           split: option.splits)

lemma editLoop_ok:
  "registryOk c \<Longrightarrow> idx < length (workspaces c) \<Longrightarrow>
     registryOk (fst (editLoop e idx ts c)) \<and> savesOk (snd (editLoop e idx ts c))"
proof (induction ts arbitrary: c)
  case Nil
  then show ?case by simp
next
  case (Cons t ts)
  show ?case
  proof (cases "select [''Name'', ''Description'', ''Working dir'', ''Additional dirs'', ''Done''] (fieldSel t)")
    case None
    with Cons.prems show ?thesis by simp
  next
    case (Some field)
    let ?step = "editField e idx field t c"
    have s: "registryOk (fst ?step) \<and> savesOk (snd ?step)"
      using Cons.prems by (rule editField_ok)
    moreover have "idx < length (workspaces (fst ?step))"
      using Cons.prems(2) by (simp add: editField_length)
    ultimately have "registryOk (fst (editLoop e idx ts (fst ?step)))
                   \<and> savesOk (snd (editLoop e idx ts (fst ?step)))"
      using Cons.IH by blast
    with s Some Cons.prems(1) show ?thesis by (simp add: Let_def)
  qed
qed

lemma savesOk_saves: "savesOk (fst r) = (\<forall>c\<in>set (saves r). registryOk c)"
  by (auto simp: savesOk_def Save_in_saves)

lemma cmdEdit_ok:
  assumes "registryOk c"
  shows "savesOk (fst (cmdEdit e u args c))"
proof (cases "length (workspaces c) = 0")
  case True
  then show ?thesis by (simp add: cmdEdit_def die_def savesOk_def)
next
  case False
  show ?thesis
  proof (cases "chooseIndex e u args c")
    case (Inl out)
    then have "out = ([], Returned) \<or> (\<exists>m. out = die m)"
      by (auto simp: chooseIndex_def split: option.splits if_splits)
    with False Inl show ?thesis by (auto simp: cmdEdit_def die_def savesOk_def)
  next
    case (Inr idx)
    with False assms editLoop_ok [of c idx e "turns u"] show ?thesis
      by (simp add: cmdEdit_def)
  qed
qed

lemma addDirsOk_added: "addDirsOk (addedWorkspace e u args)"
  using distinct_newSet [of "addAddDirs e args"] set_newSet [of "addAddDirs e args"]
  by (auto simp: addDirsOk_def addedWorkspace_def addAddDirs_def)

lemma cmdAdd_ok:
  assumes "registryOk c"
  shows "savesOk (fst (cmdAdd e u args c))"
  unfolding savesOk_saves
  using cmdAdd_saves_cases [of e u args c] assms addDirsOk_added [of e u args]
  by (auto simp: registryOk_def)

lemma cmdRm_ok:
  assumes "registryOk c"
  shows "savesOk (fst (cmdRm e u args c))"
proof -
  have "registryOk (c\<lparr>workspaces := splice1 idx (workspaces c)\<rparr>)" for idx
    using assms set_splice1 [of idx "workspaces c"] by (auto simp: registryOk_def list_all_iff)
  then show ?thesis
    by (auto simp: cmdRm_def Let_def die_def chooseIndex_def savesOk_def
             split: option.splits sum.splits if_splits)
qed

lemma savesOk_launch: "savesOk (fst (launch e wso))"
  by (auto simp: launch_def die_def savesOk_def split: option.splits subprocess.splits)

lemma savesOk_cmdLs: "savesOk (fst (cmdLs c))"
  by (auto simp: cmdLs_def savesOk_def)

lemma savesOk_after: "savesOk evs \<Longrightarrow> savesOk (fst r) \<Longrightarrow> savesOk (fst (after evs r))"
  by (simp add: after_def)

lemma launchMenu_ok:
  assumes "registryOk c"
  shows "savesOk (fst (launchMenu e u c))"
proof -
  note parts = cmdAdd_ok [OF assms, of e u "[]"] cmdEdit_ok [OF assms, of e u "[]"]
    cmdRm_ok [OF assms, of e u "[]"] savesOk_cmdLs [of c] savesOk_launch
  show ?thesis
    unfolding launchMenu_def
    by (auto intro!: savesOk_after parts simp: Let_def split: option.splits)
qed

lemma cmdLaunch_ok:
  assumes "registryOk c"
  shows "savesOk (fst (cmdLaunch e u n c))"
proof -
  have "savesOk (fst (die m))" for m
    by (simp add: die_def savesOk_def)
  with launchMenu_ok [OF assms, of e u] savesOk_launch [of e] show ?thesis
    by (simp add: cmdLaunch_def split: option.splits)
qed

text \<open>
  C7. Every registry the add command, the edit command (the name, the description, the
  working directory, adding, removing and clearing additional directories, over any
  number of turns), the remove command or the launcher with its menus saves satisfies the
  invariant of the additional directories, when the registry the command loaded does: a
  present field is not empty, has no duplicate and does not hold the working directory of
  its workspace.
\<close>

theorem write_paths_preserve_addDirs_invariant:
  assumes "registryOk config"
  shows "(\<forall>c\<in>set (saves (cmdAdd e u args config)). registryOk c)
       \<and> (\<forall>c\<in>set (saves (cmdEdit e u args config)). registryOk c)
       \<and> (\<forall>c\<in>set (saves (cmdRm e u args config)). registryOk c)
       \<and> (\<forall>c\<in>set (saves (cmdLaunch e u nameArg config)). registryOk c)"
  using cmdAdd_ok [OF assms, of e u args] cmdEdit_ok [OF assms, of e u args]
    cmdRm_ok [OF assms, of e u args] cmdLaunch_ok [OF assms, of e u nameArg]
  by (simp only: savesOk_saves simp_thms)

theorem write_paths_preserve_addDirs_invariant_witness:
  "registryOk appWithDirs
   \<and> saves (cmdEdit sampleEnv (editing [typed 2 ''/home/u/a'']) [''app''] appWithDirs)
       = [\<lparr>workspaces = [\<lparr>name = ''app'', description = ''app'', cwd = ''/home/u/a'',
                           addDirs = Some [''/srv/lib'']\<rparr>]\<rparr>]
   \<and> registryOk \<lparr>workspaces = [\<lparr>name = ''app'', description = ''app'', cwd = ''/home/u/a'',
                                 addDirs = Some [''/srv/lib'']\<rparr>]\<rparr>"
proof -
  let ?c = "\<lparr>workspaces = [\<lparr>name = ''app'', description = ''app'', cwd = ''/home/u/a'',
                             addDirs = Some [''/srv/lib'']\<rparr>]\<rparr>"
  have ok: "registryOk appWithDirs"
    by (simp add: registryOk_def addDirsOk_def appWithDirs_def)
  have s: "saves (cmdEdit sampleEnv (editing [typed 2 ''/home/u/a'']) [''app''] appWithDirs) = [?c]"
    by (simp add: sample_defs edit_defs)
  from write_paths_preserve_addDirs_invariant
    [OF ok, of sampleEnv "editing [typed 2 ''/home/u/a'']" "[''app'']"]
  have "\<forall>c\<in>set (saves (cmdEdit sampleEnv (editing [typed 2 ''/home/u/a'']) [''app''] appWithDirs)).
          registryOk c"
    by blast
  then have "registryOk ?c" unfolding s by simp
  with ok s show ?thesis by blast
qed

subsection \<open>Editing the working directory\<close>

lemma filter_neq_distinct:
  assumes d: "distinct ds" and m: "p \<in> set ds"
  shows "\<exists>pre post. ds = pre @ p # post \<and> filter (\<lambda>d. d \<noteq> p) ds = pre @ post"
proof -
  from m obtain pre post where s: "ds = pre @ p # post" by (auto simp: in_set_conv_decomp)
  with d have "p \<notin> set pre" "p \<notin> set post" by auto
  then have "filter (\<lambda>d. d \<noteq> p) pre = pre" "filter (\<lambda>d. d \<noteq> p) post = post"
    by (auto simp: filter_id_conv)
  with s have "filter (\<lambda>d. d \<noteq> p) ds = pre @ post" by simp
  with s show ?thesis by blast
qed

lemma editCwd_accepts:
  assumes "prompt e (textValue t) = Some v" and "v \<noteq> []" and "exists e (resolvePath e v)"
      and "\<forall>other. findByCwd config (resolvePath e v) = Some other
                   \<longrightarrow> name other = name (workspaces config ! idx)"
  shows "editCwd e idx t config =
           (setWorkspace config idx
              ((workspaces config ! idx)
                 \<lparr>cwd := resolvePath e v,
                  addDirs := pruneAddDirs (resolvePath e v) (addDirs (workspaces config ! idx))\<rparr>),
            [Save (setWorkspace config idx
              ((workspaces config ! idx)
                 \<lparr>cwd := resolvePath e v,
                  addDirs := pruneAddDirs (resolvePath e v) (addDirs (workspaces config ! idx))\<rparr>))])"
proof (cases "findByCwd config (resolvePath e v)")
  case None
  with assms(1,2,3) show ?thesis by (simp add: editCwd_def Let_def)
next
  case (Some other)
  with assms(4) have "name other = name (workspaces config ! idx)" by simp
  with Some assms(1,2,3) show ?thesis by (simp add: editCwd_def Let_def)
qed

lemma editCwd_rejects:
  assumes "prompt e (textValue t) = Some v" and "v \<noteq> []"
      and "\<not> (exists e (resolvePath e v)
            \<and> (\<forall>other. findByCwd config (resolvePath e v) = Some other
                   \<longrightarrow> name other = name (workspaces config ! idx)))"
  shows "\<exists>m. editCwd e idx t config = (config, [ConsoleLog m])"
proof (cases "exists e (resolvePath e v)")
  case False
  with assms(1,2) show ?thesis by (simp add: editCwd_def Let_def)
next
  case True
  with assms(3) obtain other where "findByCwd config (resolvePath e v) = Some other"
    "name other \<noteq> name (workspaces config ! idx)" by blast
  with True assms(1,2) show ?thesis by (simp add: editCwd_def Let_def)
qed

lemma setWorkspace_pruned:
  assumes "addDirs (workspaces config ! idx) = Some ds"
  shows "workspaces (setWorkspace config idx ((workspaces config ! idx)\<lparr>cwd := p, addDirs := pruneAddDirs p (addDirs (workspaces config ! idx))\<rparr>)) =
        (workspaces config)[idx := (workspaces config ! idx)\<lparr>cwd := p, addDirs := (if filter (\<lambda>d. d \<noteq> p) ds = [] then None else Some (filter (\<lambda>d. d \<noteq> p) ds))\<rparr>]"
proof -
  have "pruneAddDirs p (Some ds) = (if filter (\<lambda>d. d \<noteq> p) ds = [] then None else Some (filter (\<lambda>d. d \<noteq> p) ds))"
    by (simp add: pruneAddDirs_def Let_def)
  then show ?thesis
    unfolding setWorkspace_def assms by simp
qed

text \<open>
  C8, as the code has it. The user answers the prompt of the working directory with a
  non-empty text that resolves to one of the workspace's additional directories. When
  that path exists and the first workspace of the registry with that working directory,
  if there is one, has the name of the edited workspace, the edit is saved: the working
  directory is the path, every entry equal to it is removed from the additional
  directories (exactly one when they have no duplicate), the others keep their order, and
  the field is absent when none remains. Otherwise a warning is printed, and the registry
  is neither changed nor saved.
\<close>

theorem editCwd_to_own_addDir:
  assumes "idx < length (workspaces config)"
      and "addDirs (workspaces config ! idx) = Some ds"
      and "prompt e (textValue t) = Some v" and "v \<noteq> []"
      and "resolvePath e v \<in> set ds"
  shows "if exists e (resolvePath e v)
            \<and> (\<forall>other. findByCwd config (resolvePath e v) = Some other
                   \<longrightarrow> name other = name (workspaces config ! idx))
         then \<exists>kept config'.
                kept = filter (\<lambda>d. d \<noteq> resolvePath e v) ds
              \<and> (distinct ds \<longrightarrow> (\<exists>pre post. ds = pre @ resolvePath e v # post \<and> kept = pre @ post))
              \<and> workspaces config' =
                  (workspaces config)
                    [idx := (workspaces config ! idx)
                              \<lparr>cwd := resolvePath e v,
                               addDirs := (if kept = [] then None else Some kept)\<rparr>]
              \<and> editCwd e idx t config = (config', [Save config'])
         else \<exists>m. editCwd e idx t config = (config, [ConsoleLog m])"
proof (cases "exists e (resolvePath e v)
            \<and> (\<forall>other. findByCwd config (resolvePath e v) = Some other
                   \<longrightarrow> name other = name (workspaces config ! idx))")
  case True
  let ?p = "resolvePath e v"
  let ?ws = "workspaces config ! idx"
  let ?kept = "filter (\<lambda>d. d \<noteq> ?p) ds"
  let ?config' = "setWorkspace config idx (?ws\<lparr>cwd := ?p, addDirs := pruneAddDirs ?p (addDirs ?ws)\<rparr>)"
  have 1: "distinct ds \<longrightarrow> (\<exists>pre post. ds = pre @ ?p # post \<and> ?kept = pre @ post)"
    using assms(5) filter_neq_distinct [of ds ?p] by blast
  have 2: "workspaces ?config' =
        (workspaces config)[idx := ?ws\<lparr>cwd := ?p, addDirs := (if ?kept = [] then None else Some ?kept)\<rparr>]"
    using assms(2) by (rule setWorkspace_pruned)
  have 3: "editCwd e idx t config = (?config', [Save ?config'])"
  proof (rule editCwd_accepts)
    show "prompt e (textValue t) = Some v" by (rule assms(3))
    show "v \<noteq> []" by (rule assms(4))
    show "exists e ?p" using True by (rule conjunct1)
    show "\<forall>other. findByCwd config ?p = Some other \<longrightarrow> name other = name ?ws"
      using True by (rule conjunct2)
  qed
  have ex: "\<exists>kept config'.
                kept = filter (\<lambda>d. d \<noteq> ?p) ds
              \<and> (distinct ds \<longrightarrow> (\<exists>pre post. ds = pre @ ?p # post \<and> kept = pre @ post))
              \<and> workspaces config' =
                  (workspaces config)
                    [idx := ?ws\<lparr>cwd := ?p, addDirs := (if kept = [] then None else Some kept)\<rparr>]
              \<and> editCwd e idx t config = (config', [Save config'])"
    apply (rule exI [of _ ?kept])
    apply (rule exI [of _ ?config'])
    using 1 2 3 apply (intro conjI)
    apply (rule refl)
    apply assumption+
    done
  show ?thesis by (subst if_P [OF True]) (rule ex)
next
  case False
  with assms(3,4) have r: "\<exists>m. editCwd e idx t config = (config, [ConsoleLog m])"
    by (rule editCwd_rejects)
  show ?thesis by (subst if_not_P [OF False]) (rule r)
qed

theorem editCwd_to_own_addDir_witness:
  "addDirs (workspaces appWithDirs ! 0) = Some [''/srv/lib'', ''/home/u/a'']
   \<and> prompt sampleEnv (textValue (typed 2 ''/home/u/a'')) = Some ''/home/u/a''
   \<and> resolvePath sampleEnv ''/home/u/a'' = ''/home/u/a''
   \<and> editCwd sampleEnv 0 (typed 2 ''/home/u/a'') appWithDirs
       = (\<lparr>workspaces = [\<lparr>name = ''app'', description = ''app'', cwd = ''/home/u/a'',
                           addDirs = Some [''/srv/lib'']\<rparr>]\<rparr>,
          [Save \<lparr>workspaces = [\<lparr>name = ''app'', description = ''app'', cwd = ''/home/u/a'',
                                addDirs = Some [''/srv/lib'']\<rparr>]\<rparr>])"
proof -
  let ?t = "typed 2 ''/home/u/a''"
  let ?ds = "[''/srv/lib'', ''/home/u/a'']"
  have 1: "0 < length (workspaces appWithDirs)" by (simp add: appWithDirs_def)
  have 2: "addDirs (workspaces appWithDirs ! 0) = Some ?ds" by (simp add: appWithDirs_def)
  have 3: "prompt sampleEnv (textValue ?t) = Some ''/home/u/a''"
    by (simp add: typed_def prompt_def sampleEnv_def isSpace_def)
  have 4: "''/home/u/a'' \<noteq> []" by simp
  have r: "resolvePath sampleEnv ''/home/u/a'' = ''/home/u/a''"
    by (simp add: resolvePath_def sampleEnv_def)
  have 5: "resolvePath sampleEnv ''/home/u/a'' \<in> set ?ds" unfolding r by simp
  have c: "exists sampleEnv (resolvePath sampleEnv ''/home/u/a'')
            \<and> (\<forall>other. findByCwd appWithDirs (resolvePath sampleEnv ''/home/u/a'') = Some other
                   \<longrightarrow> name other = name (workspaces appWithDirs ! 0))"
    unfolding r by (simp add: exists_def sampleEnv_def findByCwd_def appWithDirs_def)
  from editCwd_to_own_addDir [OF 1 2 3 4 5]
  have "\<exists>kept config'.
                kept = filter (\<lambda>d. d \<noteq> resolvePath sampleEnv ''/home/u/a'') ?ds
              \<and> (distinct ?ds \<longrightarrow> (\<exists>pre post. ?ds = pre @ resolvePath sampleEnv ''/home/u/a'' # post
                                    \<and> kept = pre @ post))
              \<and> workspaces config' =
                  (workspaces appWithDirs)
                    [0 := (workspaces appWithDirs ! 0)
                              \<lparr>cwd := resolvePath sampleEnv ''/home/u/a'',
                               addDirs := (if kept = [] then None else Some kept)\<rparr>]
              \<and> editCwd sampleEnv 0 ?t appWithDirs = (config', [Save config'])"
    by (simp only: if_P [OF c])
  then obtain config' where w: "workspaces config' =
        (workspaces appWithDirs)
          [0 := (workspaces appWithDirs ! 0)
                  \<lparr>cwd := resolvePath sampleEnv ''/home/u/a'',
                   addDirs := (if filter (\<lambda>d. d \<noteq> resolvePath sampleEnv ''/home/u/a'') ?ds = []
                               then None
                               else Some (filter (\<lambda>d. d \<noteq> resolvePath sampleEnv ''/home/u/a'') ?ds))\<rparr>]"
    and e: "editCwd sampleEnv 0 ?t appWithDirs = (config', [Save config'])"
    by blast
  from w have "workspaces config' = [\<lparr>name = ''app'', description = ''app'', cwd = ''/home/u/a'',
                           addDirs = Some [''/srv/lib'']\<rparr>]"
    unfolding r by (simp add: appWithDirs_def)
  then have "config' = \<lparr>workspaces = [\<lparr>name = ''app'', description = ''app'', cwd = ''/home/u/a'',
                           addDirs = Some [''/srv/lib'']\<rparr>]\<rparr>"
    by (cases config') simp
  with e 2 3 r show ?thesis by simp
qed

text \<open>
  The claim C8 as the specification states it fails: the additional directory of the
  first workspace is the working directory of the second, and the edit is refused; the
  additional directory no longer exists, and the edit is refused.
\<close>

theorem editCwd_to_own_addDir_refused:
  "addDirs (workspaces appAndLib ! 0) = Some [''/srv/lib'']
   \<and> resolvePath sampleEnv ''/srv/lib'' = ''/srv/lib''
   \<and> exists sampleEnv ''/srv/lib''
   \<and> editCwd sampleEnv 0 (typed 2 ''/srv/lib'') appAndLib
       = (appAndLib, [ConsoleLog (AlreadyUsedBy ''lib'')])
   \<and> cmdEdit sampleEnv (editing [typed 2 ''/srv/lib'']) [''app''] appAndLib
       = ([ConsoleLog (AlreadyUsedBy ''lib'')], Returned)
   \<and> addDirs (workspaces appWithGone ! 0) = Some [''/srv/gone'']
   \<and> resolvePath sampleEnv ''/srv/gone'' = ''/srv/gone''
   \<and> editCwd sampleEnv 0 (typed 2 ''/srv/gone'') appWithGone
       = (appWithGone, [ConsoleLog (NotFoundPath ''/srv/gone'')])
   \<and> cmdEdit sampleEnv (editing [typed 2 ''/srv/gone'']) [''app''] appWithGone
       = ([ConsoleLog (NotFoundPath ''/srv/gone'')], Returned)"
  by (simp add: sample_defs edit_defs)

subsection \<open>Editing the name\<close>

text \<open>
  What the code does with a new name: a non-empty answer other than the current name is
  refused exactly when some workspace of the registry, the edited one included, has that
  name up to case; otherwise it is saved.
\<close>

lemma editName_refuses_iff:
  assumes "prompt e (textValue t) = Some v" and "v \<noteq> []" and "v \<noteq> name (workspaces config ! idx)"
  shows "editName e idx t config =
           (if \<exists>w\<in>set (workspaces config). toLowerCase e (name w) = toLowerCase e v
            then (config, [ConsoleLog (NameAlreadyExists v)])
            else (setWorkspace config idx ((workspaces config ! idx)\<lparr>name := v\<rparr>),
                  [Save (setWorkspace config idx ((workspaces config ! idx)\<lparr>name := v\<rparr>))]))"
  using assms findByName_collides [of e config v]
  by (simp add: editName_def Let_def)

text \<open>
  C1 fails on the code: the registry holds the one workspace \<open>App\<close>, and the user renames
  it to \<open>app\<close>. The new name collides with no other workspace, and yet the code prints the
  warning and keeps the old name, since \<^verbatim>\<open>findByName\<close> finds the edited workspace
  itself.
\<close>

theorem editName_case_change_refused:
  "length (workspaces appOnly) = 1
   \<and> name (workspaces appOnly ! 0) = ''App''
   \<and> editName sampleEnv 0 (typed 0 ''app'') appOnly = (appOnly, [ConsoleLog (NameAlreadyExists ''app'')])
   \<and> cmdEdit sampleEnv (editing [typed 0 ''app'']) [''App''] appOnly
       = ([ConsoleLog (NameAlreadyExists ''app'')], Returned)"
  by (simp add: sample_defs edit_defs)

section \<open>The config store: properties\<close>

subsection \<open>Parsing a serialised value\<close>

lemma hexVal_hexDigit: "hexVal (hexDigit n) = Some (n mod 16)"
proof -
  have "k < 16 \<Longrightarrow> hexVal (''0123456789abcdef'' ! k) = Some k" for k
    by (auto simp: hexVal_def less_Suc_eq numeral_eq_Suc)
  then show ?thesis by (simp add: hexDigit_def)
qed

lemma hex4_control:
  assumes "n < 256"
  shows "hex4 [CHR ''0'', CHR ''0'', hexDigit (n div 16), hexDigit n] = Some n"
proof -
  have "hexVal (CHR ''0'') = Some 0" by (simp add: hexVal_def)
  moreover from assms have "(n div 16) mod 16 = n div 16" by simp
  ultimately show ?thesis
    by (simp add: hex4_def hexVal_hexDigit)
qed

lemma escapeChar_not_quote: "escapeChar c \<noteq> [] \<and> hd (escapeChar c) \<noteq> DQ"
  by (simp add: escapeChar_def)

lemma utf8_ascii: "of_char c < (0x80::nat) \<Longrightarrow> utf8 (of_char c) = [c]"
  by (simp add: utf8_def)

lemma stringChar_escapeChar: "stringChar (escapeChar c @ z) = Some ([c], z)"
proof -
  consider (short) "c \<in> {CHR 0x08, CHR 0x09, NL, CHR 0x0C, CHR 0x0D, DQ, BS}"
    | (control) "c \<notin> {CHR 0x08, CHR 0x09, NL, CHR 0x0C, CHR 0x0D, DQ, BS}" "(of_char c :: nat) < 0x20"
    | (plain) "c \<notin> {CHR 0x08, CHR 0x09, NL, CHR 0x0C, CHR 0x0D, DQ, BS}" "\<not> (of_char c :: nat) < 0x20"
    by blast
  then show ?thesis
  proof cases
    case short
    then show ?thesis
      by (auto simp: escapeChar_def stringChar_def unescape_def)
  next
    case control
    then have "hex4 [CHR ''0'', CHR ''0'', hexDigit (of_char c div 16), hexDigit (of_char c)]
                 = Some (of_char c)"
      by (intro hex4_control) simp
    moreover from control have "utf8 (of_char c) = [c]" by (intro utf8_ascii) simp
    ultimately show ?thesis
      using control by (simp add: escapeChar_def stringChar_def)
  next
    case plain
    then show ?thesis
      by (simp add: escapeChar_def stringChar_def)
  qed
qed

lemma parseChars_escaped:
  "length (concat (map escapeChar s)) < n \<Longrightarrow>
     parseChars n acc (concat (map escapeChar s) @ DQ # rest) = Some (acc @ s, rest)"
proof (induction s arbitrary: n acc)
  case Nil
  then obtain m where "n = Suc m" by (cases n) auto
  then show ?case by simp
next
  case (Cons c s)
  from Cons.prems obtain m where n: "n = Suc m" by (cases n) auto
  obtain e es where e: "escapeChar c = e # es" "e \<noteq> DQ"
    using escapeChar_not_quote [of c] by (cases "escapeChar c") auto
  have m: "length (concat (map escapeChar s)) < m"
    using Cons.prems n e by simp
  have "stringChar (escapeChar c @ concat (map escapeChar s) @ DQ # rest)
          = Some ([c], concat (map escapeChar s) @ DQ # rest)"
    by (rule stringChar_escapeChar)
  with e have "parseChars (Suc m) acc (concat (map escapeChar (c # s)) @ DQ # rest)
          = parseChars m (acc @ [c]) (concat (map escapeChar s) @ DQ # rest)"
    by simp
  also have "\<dots> = Some ((acc @ [c]) @ s, rest)"
    using m by (rule Cons.IH)
  finally show ?case by (simp add: n)
qed

lemma parseString_quoted:
  "parseString (concat (map escapeChar s) @ DQ # rest) = Some (s, rest)"
  using parseChars_escaped [of s "length (concat (map escapeChar s) @ DQ # rest)" "[]" rest]
  by (simp add: parseString_def)

lemma skipWs_indent [simp]: "skipWs (NL # spaces k @ s) = skipWs s"
  by (induction k) (simp_all add: skipWs_def isWs_def spaces_def)

lemma skipWs_space [simp]: "skipWs (CHR '' '' # s) = skipWs s"
  by (simp add: skipWs_def isWs_def)

lemma skipWs_punct [simp]:
  "skipWs (CHR ''['' # s) = CHR ''['' # s"
  "skipWs (CHR '']'' # s) = CHR '']'' # s"
  "skipWs (CHR ''{'' # s) = CHR ''{'' # s"
  "skipWs (CHR ''}'' # s) = CHR ''}'' # s"
  "skipWs (CHR '','' # s) = CHR '','' # s"
  "skipWs (CHR '':'' # s) = CHR '':'' # s"
  "skipWs (DQ # s) = DQ # s"
  by (simp_all add: skipWs_def isWs_def)

lemma stringifyValue_opens:
  "wfValue v \<Longrightarrow> \<exists>c t. stringifyValue ind v = c # t \<and> opens c"
  by (cases v) (auto simp: opens_def quoteJSONString_def)

lemma opens_skipWs: "opens c \<Longrightarrow> skipWs (c # s) = c # s"
  by (auto simp: opens_def skipWs_def isWs_def)

lemma parseValue_scalar:
  "parseValue (Suc n) (''null'' @ rest) = Some (JNull, rest)"
  "parseValue (Suc n) (''true'' @ rest) = Some (JBool True, rest)"
  "parseValue (Suc n) (''false'' @ rest) = Some (JBool False, rest)"
  by (simp_all add: skipWs_def isWs_def)

lemma parseValue_string:
  "parseValue (Suc n) (quoteJSONString s @ rest) = Some (JString s, rest)"
  by (simp add: quoteJSONString_def parseString_quoted)

lemma parseValue_skipWs: "parseValue n (skipWs s) = parseValue n s"
  by (cases n) (simp_all add: skipWs_def)

lemma setProperty_fresh: "k \<notin> fst ` set acc \<Longrightarrow> setProperty acc k v = acc @ [(k, v)]"
  by (induction acc) auto

lemma parseValue_indented:
  "parseValue n (NL # spaces k @ s) = parseValue n s"
  using parseValue_skipWs [of n "NL # spaces k @ s"] parseValue_skipWs [of n s]
  by simp

lemma parse_stringify:
  shows "wfValue v \<Longrightarrow> length (stringifyValue ind v) \<le> n
           \<Longrightarrow> parseValue n (stringifyValue ind v @ rest) = Some (v, rest)"
    and "vs \<noteq> [] \<Longrightarrow> wfElements vs \<Longrightarrow> length (stringifyElements ind vs) \<le> n
           \<Longrightarrow> parseElements n acc (stringifyElements ind vs @ NL # spaces k @ CHR '']'' # rest)
                 = Some (acc @ vs, rest)"
    and "ms \<noteq> [] \<Longrightarrow> wfMembers ms \<Longrightarrow> distinct (map fst ms)
           \<Longrightarrow> fst ` set macc \<inter> fst ` set ms = {}
           \<Longrightarrow> length (stringifyMembers ind ms) \<le> n
           \<Longrightarrow> parseMembers n macc (stringifyMembers ind ms @ NL # spaces k @ CHR ''}'' # rest)
                 = Some (macc @ ms, rest)"
proof (induction ind v and ind vs and ind ms
       arbitrary: n rest and n acc k rest and n macc k rest
       rule: stringifyValue_stringifyElements_stringifyMembers.induct)
  case (1 ind)
  then obtain m where "n = Suc m" by (cases n) auto
  then show ?case using parseValue_scalar(1) [of m rest] by simp
next
  case (2 ind b)
  then obtain m where "n = Suc m" by (cases n; cases b) auto
  then show ?case
    using parseValue_scalar(2) [of m rest] parseValue_scalar(3) [of m rest] by (cases b) simp_all
next
  case (3 ind n)
  then show ?case by simp
next
  case (4 ind s)
  then obtain m where "n = Suc m" by (cases n) (auto simp: quoteJSONString_def)
  then show ?case using parseValue_string [of m s rest] by simp
next
  case (5 ind vs)
  show ?case
  proof (cases "vs = []")
    case True
    with 5 obtain m where "n = Suc m" by (cases n) auto
    with True show ?thesis by simp
  next
    case False
    with 5 obtain m where n: "n = Suc m" by (cases n) auto
    let ?E = "stringifyElements (ind + 2) vs"
    from False obtain v vs' where vs: "vs = v # vs'" by (cases vs) auto
    from 5 vs have "wfValue v" by simp
    from stringifyValue_opens [OF this, of "ind + 2"]
    obtain c t where c: "stringifyValue (ind + 2) v = c # t" "opens c" by blast
    have first: "skipWs (?E @ NL # spaces ind @ CHR '']'' # rest) = c # t
            @ (if vs' = [] then [] else '','' @ stringifyElements (ind + 2) vs')
            @ NL # spaces ind @ CHR '']'' # rest"
      using c by (simp add: vs opens_skipWs)
    from c have c': "c \<noteq> CHR '']''" by (auto simp: opens_def)
    have len: "length ?E \<le> m" using 5 False n by simp
    have "parseElements m [] (?E @ NL # spaces ind @ CHR '']'' # rest) = Some ([] @ vs, rest)"
      using False 5 len by (intro "5.IH") simp_all
    with first c' show ?thesis
      using False n by simp
  qed
next
  case (6 ind ms)
  show ?case
  proof (cases "ms = []")
    case True
    with 6 obtain m where "n = Suc m" by (cases n) auto
    with True show ?thesis by simp
  next
    case False
    with 6 obtain m where n: "n = Suc m" by (cases n) auto
    let ?M = "stringifyMembers (ind + 2) ms"
    from False obtain p ms' where ms: "ms = p # ms'" by (cases ms) auto
    have first: "skipWs (?M @ NL # spaces ind @ CHR ''}'' # rest) = DQ # tl (quoteJSONString (fst p))
            @ '': '' @ stringifyValue (ind + 2) (snd p)
            @ (if ms' = [] then [] else '','' @ stringifyMembers (ind + 2) ms')
            @ NL # spaces ind @ CHR ''}'' # rest"
      by (simp add: ms quoteJSONString_def)
    have len: "length ?M \<le> m" using 6 False n by simp
    have "parseMembers m [] (?M @ NL # spaces ind @ CHR ''}'' # rest) = Some ([] @ ms, rest)"
      using False 6 len by (intro "6.IH") simp_all
    with first show ?thesis
      using False n by simp
  qed
next
  case (7 ind)
  then show ?case by simp
next
  case (8 ind v vs)
  from "8.prems" obtain m where n: "n = Suc m" by (cases n) auto
  let ?S = "stringifyValue ind v"
  have wf: "wfValue v" "wfElements vs" using "8.prems" by simp_all
  show ?case
  proof (cases "vs = []")
    case True
    have len: "length ?S \<le> m" using "8.prems" n True by simp
    have "parseValue m (NL # spaces ind @ ?S @ NL # spaces k @ CHR '']'' # rest)
            = Some (v, NL # spaces k @ CHR '']'' # rest)"
      using "8.IH"(1) [OF wf(1) len] by (simp only: parseValue_indented)
    with True n show ?thesis by simp
  next
    case False
    let ?E = "stringifyElements ind vs"
    have len: "length ?S \<le> m" "length ?E \<le> m" using "8.prems" n False by simp_all
    have "parseValue m (NL # spaces ind @ ?S @ '','' @ ?E @ NL # spaces k @ CHR '']'' # rest)
            = Some (v, '','' @ ?E @ NL # spaces k @ CHR '']'' # rest)"
      using "8.IH"(1) [OF wf(1) len(1)] by (simp only: parseValue_indented)
    moreover have "parseElements m (acc @ [v]) (?E @ NL # spaces k @ CHR '']'' # rest)
            = Some ((acc @ [v]) @ vs, rest)"
      by (rule "8.IH"(2) [OF False False wf(2) len(2)])
    ultimately show ?thesis using False n by simp
  qed
next
  case (9 ind)
  then show ?case by simp
next
  case (10 ind p ms)
  from "10.prems" obtain m where n: "n = Suc m" by (cases n) auto
  let ?S = "stringifyValue ind (snd p)"
  obtain key v where p: "p = (key, v)" by (cases p)
  have wf: "wfValue (snd p)" "wfMembers ms" "distinct (map fst ms)" using "10.prems" by simp_all
  have fresh: "key \<notin> fst ` set macc" using "10.prems"(4) p by auto
  have put: "setProperty macc key v = macc @ [p]" using fresh p by (simp add: setProperty_fresh)
  have key: "parseString (concat (map escapeChar key) @ DQ # z) = Some (key, z)" for z
    by (rule parseString_quoted)
  show ?case
  proof (cases "ms = []")
    case True
    have len: "length ?S \<le> m" using "10.prems" n True by simp
    have "parseValue m (CHR '' '' # ?S @ NL # spaces k @ CHR ''}'' # rest)
            = Some (v, NL # spaces k @ CHR ''}'' # rest)"
      using "10.IH"(1) [OF wf(1) len, of "NL # spaces k @ CHR ''}'' # rest"]
        parseValue_skipWs [of m "CHR '' '' # ?S @ NL # spaces k @ CHR ''}'' # rest"]
        parseValue_skipWs [of m "?S @ NL # spaces k @ CHR ''}'' # rest"]
      by (simp add: p)
    with True n key put show ?thesis by (simp add: p quoteJSONString_def)
  next
    case False
    let ?M = "stringifyMembers ind ms"
    have len: "length ?S \<le> m" "length ?M \<le> m" using "10.prems" n False by simp_all
    have 1: "parseValue m (CHR '' '' # ?S @ '','' @ ?M @ NL # spaces k @ CHR ''}'' # rest)
            = Some (v, '','' @ ?M @ NL # spaces k @ CHR ''}'' # rest)"
      using "10.IH"(1) [OF wf(1) len(1), of "'','' @ ?M @ NL # spaces k @ CHR ''}'' # rest"]
        parseValue_skipWs [of m "CHR '' '' # ?S @ '','' @ ?M @ NL # spaces k @ CHR ''}'' # rest"]
        parseValue_skipWs [of m "?S @ '','' @ ?M @ NL # spaces k @ CHR ''}'' # rest"]
      by (simp add: p)
    have disj: "fst ` set (macc @ [p]) \<inter> fst ` set ms = {}"
      using "10.prems"(3,4) by auto
    have 2: "parseMembers m (macc @ [p]) (?M @ NL # spaces k @ CHR ''}'' # rest)
            = Some ((macc @ [p]) @ ms, rest)"
      by (rule "10.IH"(2) [OF False False wf(2,3) disj len(2)])
    from 1 2 False n key put show ?thesis by (simp add: p quoteJSONString_def)
  qed
qed

text \<open>
  What \<^verbatim>\<open>JSON.stringify(v, null, 2)\<close> writes, followed by a line feed, parses to \<open>v\<close>.
\<close>

lemma JSON_parse_stringify:
  assumes "wfValue v"
  shows "JSON_parse (JSON_stringify v @ [NL]) = Some v"
proof -
  have "parseValue (Suc (length (JSON_stringify v @ [NL]))) (stringifyValue 0 v @ [NL]) = Some (v, [NL])"
    using assms by (intro parse_stringify(1)) (simp_all add: JSON_stringify_def)
  then show ?thesis
    by (simp add: JSON_parse_def JSON_stringify_def skipWs_def isWs_def)
qed

subsection \<open>The bound of the parser\<close>

lemma skipWs_length: "length (skipWs s) \<le> length s"
  by (simp add: skipWs_def length_dropWhile_le)

lemma skipWs_Cons_length: "skipWs s = c # r \<Longrightarrow> length r < length s"
  using skipWs_length [of s] by simp

lemma stringChar_length:
  assumes "stringChar s = Some (d, r)"
  shows "length r < length s"
proof (cases s)
  case Nil
  with assms show ?thesis by (simp add: stringChar_def)
next
  case (Cons c r0)
  show ?thesis
  proof (cases "c = BS")
    case False
    with assms Cons have "r = r0" by (simp add: stringChar_def split: if_splits)
    with Cons show ?thesis by simp
  next
    case True
    show ?thesis
    proof (cases r0)
      case Nil
      with assms Cons True show ?thesis by (simp add: stringChar_def)
    next
      case e: (Cons e r')
      show ?thesis
      proof (cases "e = CHR ''u''")
        case False
        with assms Cons True e have "r = r'"
          by (simp add: stringChar_def split: option.splits)
        with Cons e show ?thesis by simp
      next
        case u: True
        from assms Cons True e u have "r = drop 4 r' \<or> r = drop 10 r'"
          by (simp add: stringChar_def split: option.splits if_splits)
        then have "length r \<le> length r'" by auto
        with Cons e show ?thesis by simp
      qed
    qed
  qed
qed

lemma parseChars_length: "parseChars n acc s = Some (x, r) \<Longrightarrow> length r < length s"
proof (induction n arbitrary: acc s)
  case 0
  then show ?case by simp
next
  case (Suc n)
  then obtain c t where s: "s = c # t" by (cases s) auto
  show ?case
  proof (cases "c = DQ")
    case True
    with Suc.prems s show ?thesis by simp
  next
    case False
    with Suc.prems s obtain d r' where sc: "stringChar s = Some (d, r')"
      and rec: "parseChars n (acc @ d) r' = Some (x, r)"
      by (auto split: option.splits)
    from Suc.IH [OF rec] stringChar_length [OF sc] show ?thesis by simp
  qed
qed

lemma parseString_length: "parseString s = Some (x, r) \<Longrightarrow> length r < length s"
  unfolding parseString_def by (rule parseChars_length)

lemma numberWhole_Nil [simp]: "numberWhole [] = []"
  by (simp add: numberWhole_def)

lemma drop_shorter: "xs \<noteq> [] \<Longrightarrow> 0 < k \<Longrightarrow> length (drop k xs) < length xs"
  by (cases xs) auto

lemma numberToken_length:
  assumes "numberToken s = Some (tok, r)"
  shows "length r < length s"
proof -
  let ?s1 = "drop (length (numberSign s)) s"
  let ?s2 = "drop (length (numberWhole ?s1)) ?s1"
  let ?s3 = "drop (length (numberFraction ?s2)) ?s2"
  from assms have w: "numberWhole ?s1 \<noteq> []"
    and r: "r = drop (length (numberExponent ?s3)) ?s3"
    by (simp_all add: numberToken_def Let_def split: if_splits)
  from w have "?s1 \<noteq> []" by (cases ?s1) simp_all
  then have "length ?s2 < length ?s1"
    using w by (intro drop_shorter) simp_all
  moreover have "length ?s1 \<le> length s" by simp
  moreover have "length r \<le> length ?s2" unfolding r by simp
  ultimately show ?thesis by linarith
qed

lemma parseValue_scalar_fuel:
  assumes "skipWs s = c # r" and "c \<noteq> CHR ''{''" and "c \<noteq> CHR ''[''"
  shows "parseValue (Suc n) s = parseValue (Suc 0) s"
  using assms by simp

lemma parseValue_scalar_length:
  assumes "skipWs s = c # r" and "c \<noteq> CHR ''{''" and "c \<noteq> CHR ''[''"
      and "parseValue (Suc n) s = Some (v, r')"
  shows "length r' < length s"
proof -
  have s: "length (c # r) \<le> length s"
    using skipWs_length [of s] assms(1) by simp
  have d: "length (drop k (c # r)) < length (c # r)" if "0 < k" for k
    using that by (intro drop_shorter) simp_all
  consider (str) "c = DQ"
    | (true) "c \<noteq> DQ" "take 4 (c # r) = ''true''"
    | (false) "c \<noteq> DQ" "take 4 (c # r) \<noteq> ''true''" "take 5 (c # r) = ''false''"
    | (null) "c \<noteq> DQ" "take 4 (c # r) \<noteq> ''true''" "take 5 (c # r) \<noteq> ''false''" "take 4 (c # r) = ''null''"
    | (num) "c \<noteq> DQ" "take 4 (c # r) \<noteq> ''true''" "take 5 (c # r) \<noteq> ''false''" "take 4 (c # r) \<noteq> ''null''"
    by blast
  then show ?thesis
  proof cases
    case str
    with assms obtain x where "parseString r = Some (x, r')"
      by (auto split: option.splits)
    from parseString_length [OF this] s show ?thesis by simp
  next
    case true
    with assms have "r' = drop 4 (c # r)" by simp
    with d [of 4] s show ?thesis by simp
  next
    case false
    with assms have "r' = drop 5 (c # r)" by simp
    with d [of 5] s show ?thesis by simp
  next
    case null
    with assms have "r' = drop 4 (c # r)" by simp
    with d [of 4] s show ?thesis by simp
  next
    case num
    with assms obtain tok where "numberToken (c # r) = Some (tok, r')"
      by (auto split: option.splits)
    from numberToken_length [OF this] s show ?thesis by simp
  qed
qed

lemma parse_fuel:
  shows "parseValue m s = Some (v, r)
           \<Longrightarrow> length r < length s \<and> (\<forall>n. length s - length r \<le> n \<longrightarrow> parseValue n s = Some (v, r))"
    and "parseElements m acc s = Some (vs, r)
           \<Longrightarrow> length r < length s \<and> (\<forall>n. length s - length r \<le> n \<longrightarrow> parseElements n acc s = Some (vs, r))"
    and "parseMembers m macc s = Some (ms, r)
           \<Longrightarrow> length r < length s \<and> (\<forall>n. length s - length r \<le> n \<longrightarrow> parseMembers n macc s = Some (ms, r))"
proof (induction m arbitrary: s v r acc vs macc ms)
  case 0
  { case 1 then show ?case by simp }
  { case 2 then show ?case by simp }
  { case 3 then show ?case by simp }
next
  case (Suc m)
  {
    case 1
    from "1" obtain c t where sk: "skipWs s = c # t"
      by (cases "skipWs s") auto
    have st: "length t < length s" using sk by (rule skipWs_Cons_length)
    show ?case
    proof (cases "c = CHR ''{''")
      case True
      from "1" sk True obtain c' t' where sk': "skipWs t = c' # t'"
        by (cases "skipWs t") auto
      have tt: "length t' < length t" using sk' by (rule skipWs_Cons_length)
      show ?thesis
      proof (cases "c' = CHR ''}''")
        case c: True
        with "1" sk sk' True have r: "r = t'" "v = JObject []" by simp_all
        have "parseValue n s = Some (v, r)" if "length s - length r \<le> n" for n
        proof -
          from that st tt r obtain k where "n = Suc k" by (cases n) auto
          with sk sk' True c r show ?thesis by simp
        qed
        with st tt r show ?thesis by simp
      next
        case c: False
        with "1" sk sk' True obtain ms where pm: "parseMembers m [] t = Some (ms, r)"
          and v: "v = JObject ms"
          by (auto split: option.splits)
        from Suc.IH(3) [OF pm] have rt: "length r < length t"
          and ih: "\<And>k. length t - length r \<le> k \<Longrightarrow> parseMembers k [] t = Some (ms, r)"
          by simp_all
        have "parseValue n s = Some (v, r)" if "length s - length r \<le> n" for n
        proof -
          from that st rt obtain k where n: "n = Suc k" by (cases n) auto
          with that st rt have "length t - length r \<le> k" by simp
          from ih [OF this] n sk sk' True c v show ?thesis by simp
        qed
        with st rt show ?thesis by simp
      qed
    next
      case notobj: False
      show ?thesis
      proof (cases "c = CHR ''[''")
        case True
        from "1" sk True obtain c' t' where sk': "skipWs t = c' # t'"
          by (cases "skipWs t") auto
        have tt: "length t' < length t" using sk' by (rule skipWs_Cons_length)
        show ?thesis
        proof (cases "c' = CHR '']''")
          case c: True
          with "1" sk sk' True have r: "r = t'" "v = JArray []" by simp_all
          have "parseValue n s = Some (v, r)" if "length s - length r \<le> n" for n
          proof -
            from that st tt r obtain k where "n = Suc k" by (cases n) auto
            with sk sk' True c r show ?thesis by simp
          qed
          with st tt r show ?thesis by simp
        next
          case c: False
          with "1" sk sk' True obtain es where pe: "parseElements m [] t = Some (es, r)"
            and v: "v = JArray es"
            by (auto split: option.splits)
          from Suc.IH(2) [OF pe] have rt: "length r < length t"
            and ih: "\<And>k. length t - length r \<le> k \<Longrightarrow> parseElements k [] t = Some (es, r)"
            by simp_all
          have "parseValue n s = Some (v, r)" if "length s - length r \<le> n" for n
          proof -
            from that st rt obtain k where n: "n = Suc k" by (cases n) auto
            with that st rt have "length t - length r \<le> k" by simp
            from ih [OF this] n sk sk' True c v show ?thesis by simp
          qed
          with st rt show ?thesis by simp
        qed
      next
        case False
        have len: "length r < length s"
          using sk notobj False "1" by (rule parseValue_scalar_length)
        have "parseValue n s = Some (v, r)" if "length s - length r \<le> n" for n
        proof -
          from that len obtain k where n: "n = Suc k" by (cases n) auto
          have "parseValue (Suc k) s = parseValue (Suc 0) s"
            using sk notobj False by (rule parseValue_scalar_fuel)
          moreover have "parseValue (Suc m) s = parseValue (Suc 0) s"
            using sk notobj False by (rule parseValue_scalar_fuel)
          ultimately show ?thesis using "1" n by simp
        qed
        with len show ?thesis by simp
      qed
    qed
  }
  {
    case 2
    from "2" obtain x r1 where pv: "parseValue m s = Some (x, r1)"
      by (auto split: option.splits)
    from Suc.IH(1) [OF pv] have l1: "length r1 < length s"
      and ih1: "\<And>k. length s - length r1 \<le> k \<Longrightarrow> parseValue k s = Some (x, r1)"
      by simp_all
    from "2" pv obtain c r2 where sk: "skipWs r1 = c # r2"
      by (cases "skipWs r1") auto
    have l2: "length r2 < length r1" using sk by (rule skipWs_Cons_length)
    show ?case
    proof (cases "c = CHR '',''")
      case True
      with "2" pv sk have pe: "parseElements m (acc @ [x]) r2 = Some (vs, r)" by simp
      from Suc.IH(2) [OF pe] have l3: "length r < length r2"
        and ih2: "\<And>k. length r2 - length r \<le> k \<Longrightarrow> parseElements k (acc @ [x]) r2 = Some (vs, r)"
        by simp_all
      have "parseElements n acc s = Some (vs, r)" if "length s - length r \<le> n" for n
      proof -
        from that l1 l2 l3 obtain k where n: "n = Suc k" by (cases n) auto
        with that l1 l2 l3 have "length s - length r1 \<le> k" "length r2 - length r \<le> k"
          by simp_all
        from ih1 [OF this(1)] ih2 [OF this(2)] n sk True show ?thesis by simp
      qed
      with l1 l2 l3 show ?thesis by simp
    next
      case False
      with "2" pv sk have c: "c = CHR '']''" and r: "r = r2" "vs = acc @ [x]"
        by (simp_all split: if_splits)
      have "parseElements n acc s = Some (vs, r)" if "length s - length r \<le> n" for n
      proof -
        from that l1 l2 r obtain k where n: "n = Suc k" by (cases n) auto
        with that l1 l2 r have "length s - length r1 \<le> k" by simp
        from ih1 [OF this] n sk c r show ?thesis by simp
      qed
      with l1 l2 r show ?thesis by simp
    qed
  }
  {
    case 3
    from "3" obtain q t where sk0: "skipWs s = q # t"
      by (cases "skipWs s") auto
    have l0: "length t < length s" using sk0 by (rule skipWs_Cons_length)
    from "3" sk0 have q: "q = DQ" by (simp split: if_splits)
    from "3" sk0 q obtain key r1 where ps: "parseString t = Some (key, r1)"
      by (auto split: option.splits)
    have l1: "length r1 < length t" using ps by (rule parseString_length)
    from "3" sk0 q ps obtain c r2 where sk1: "skipWs r1 = c # r2"
      by (cases "skipWs r1") auto
    have l2: "length r2 < length r1" using sk1 by (rule skipWs_Cons_length)
    from "3" sk0 q ps sk1 have c: "c = CHR '':''" by (simp split: if_splits)
    from "3" sk0 q ps sk1 c obtain x r3 where pv: "parseValue m r2 = Some (x, r3)"
      by (auto split: option.splits)
    from Suc.IH(1) [OF pv] have l3: "length r3 < length r2"
      and ih1: "\<And>k. length r2 - length r3 \<le> k \<Longrightarrow> parseValue k r2 = Some (x, r3)"
      by simp_all
    from "3" sk0 q ps sk1 c pv obtain c' r4 where sk2: "skipWs r3 = c' # r4"
      by (cases "skipWs r3") auto
    have l4: "length r4 < length r3" using sk2 by (rule skipWs_Cons_length)
    show ?case
    proof (cases "c' = CHR '',''")
      case True
      with "3" sk0 q ps sk1 c pv sk2
      have pm: "parseMembers m (setProperty macc key x) r4 = Some (ms, r)" by simp
      from Suc.IH(3) [OF pm] have l5: "length r < length r4"
        and ih2: "\<And>k. length r4 - length r \<le> k
                    \<Longrightarrow> parseMembers k (setProperty macc key x) r4 = Some (ms, r)"
        by simp_all
      have "parseMembers n macc s = Some (ms, r)" if "length s - length r \<le> n" for n
      proof -
        from that l0 l1 l2 l3 l4 l5 obtain k where n: "n = Suc k" by (cases n) auto
        with that l0 l1 l2 l3 l4 l5
        have "length r2 - length r3 \<le> k" "length r4 - length r \<le> k"
          by simp_all
        from ih1 [OF this(1)] ih2 [OF this(2)] n sk0 q ps sk1 c sk2 True show ?thesis by simp
      qed
      with l0 l1 l2 l3 l4 l5 show ?thesis by simp
    next
      case False
      with "3" sk0 q ps sk1 c pv sk2 have c': "c' = CHR ''}''"
        and r: "r = r4" "ms = setProperty macc key x"
        by (simp_all split: if_splits)
      have "parseMembers n macc s = Some (ms, r)" if "length s - length r \<le> n" for n
      proof -
        from that l0 l1 l2 l3 l4 r obtain k where n: "n = Suc k" by (cases n) auto
        with that l0 l1 l2 l3 l4 r have "length r2 - length r3 \<le> k" by simp
        from ih1 [OF this] n sk0 q ps sk1 c sk2 c' r show ?thesis by simp
      qed
      with l0 l1 l2 l3 l4 r show ?thesis by simp
    qed
  }
qed

text \<open>
  The parser does not depend on its bound: a parse that succeeds with any bound succeeds
  with the one \<open>JSON_parse\<close> gives, so that \<open>JSON_parse\<close> fails on the texts outside
  the grammar only.
\<close>

lemma JSON_parse_any_bound:
  "JSON_parse s = Some v \<longleftrightarrow> (\<exists>n r. parseValue n s = Some (v, r) \<and> skipWs r = [])"
proof
  assume "JSON_parse s = Some v"
  then have "\<exists>r. parseValue (Suc (length s)) s = Some (v, r) \<and> skipWs r = []"
    by (auto simp del: parseValue.simps simp add: JSON_parse_def split: option.splits if_splits)
  then show "\<exists>n r. parseValue n s = Some (v, r) \<and> skipWs r = []"
    by blast
next
  assume "\<exists>n r. parseValue n s = Some (v, r) \<and> skipWs r = []"
  then obtain n r where p: "parseValue n s = Some (v, r)" and w: "skipWs r = []" by blast
  from parse_fuel(1) [OF p]
  have "\<forall>n. length s - length r \<le> n \<longrightarrow> parseValue n s = Some (v, r)"
    by (rule conjunct2)
  then have "parseValue (Suc (length s)) s = Some (v, r)"
    by (simp del: parseValue.simps)
  with w show "JSON_parse s = Some v"
    by (simp del: parseValue.simps add: JSON_parse_def)
qed

subsection \<open>The values of the registry\<close>

lemma wfElements_strings: "wfElements (map JString ds)"
  by (induction ds) simp_all

lemma wfValue_jsWorkspace: "wfValue (jsWorkspace ws)"
  by (simp add: jsWorkspace_def wfElements_strings split: option.splits)

lemma wfElements_workspaces: "wfElements (map jsWorkspace wss)"
  by (induction wss) (simp_all add: wfValue_jsWorkspace)

lemma wfValue_jsConfig: "wfValue (jsConfig c)"
  by (simp add: jsConfig_def wfElements_workspaces)

lemma load_save:
  assumes "wfValue v" and "isArray (getProperty v ''workspaces'')"
  shows "load (save v) = (v, [])"
  using assms by (simp add: load_def save_def JSON_parse_stringify)

subsection \<open>Load\<close>

text \<open>
  C2, as the code has it. \<^verbatim>\<open>load\<close> always returns a value whose \<^verbatim>\<open>workspaces\<close> is an
  array. It prints the warning exactly when the file is present and cannot be read or
  parsed. It returns the parsed value when that has an array of workspaces, and the empty
  registry otherwise: for an absent file, for an unreadable or unparsable one, and,
  without a warning, for a parsed value of another shape.
\<close>

theorem load_cases:
  "isArray (getProperty (fst (load f)) ''workspaces'')
   \<and> snd (load f) =
       (if f = Unreadable \<or> (\<exists>text. f = Content text \<and> JSON_parse text = None)
        then [ConsoleError ConfigCorrupted] else [])
   \<and> fst (load f) =
       (case f of
          Content text \<Rightarrow>
            (case JSON_parse text of
               Some data \<Rightarrow> if isArray (getProperty data ''workspaces'') then data else emptyConfig
             | None \<Rightarrow> emptyConfig)
        | _ \<Rightarrow> emptyConfig)"
proof -
  have e: "isArray (getProperty emptyConfig ''workspaces'')"
    by (simp add: emptyConfig_def getProperty_def isArray_def)
  show ?thesis
  proof (cases f)
    case Absent
    with e show ?thesis by (simp add: load_def)
  next
    case Unreadable
    with e show ?thesis by (simp add: load_def)
  next
    case (Content s)
    with e show ?thesis by (cases "JSON_parse s") (simp_all add: load_def)
  qed
qed

theorem load_cases_witness:
  "load Absent = (emptyConfig, [])
   \<and> load Unreadable = (emptyConfig, [ConsoleError ConfigCorrupted])
   \<and> JSON_parse ''{ws'' = None
   \<and> load (Content ''{ws'') = (emptyConfig, [ConsoleError ConfigCorrupted])"
proof -
  have p: "JSON_parse ''{ws'' = None"
    by (simp add: JSON_parse_def skipWs_def isWs_def)
  from load_cases [of Absent] have 1: "load Absent = (emptyConfig, [])"
    by (simp add: prod_eq_iff)
  from load_cases [of Unreadable]
  have 2: "load Unreadable = (emptyConfig, [ConsoleError ConfigCorrupted])"
    by (simp add: prod_eq_iff)
  from load_cases [of "Content ''{ws''"] p
  have 3: "load (Content ''{ws'') = (emptyConfig, [ConsoleError ConfigCorrupted])"
    by (simp add: prod_eq_iff)
  from 1 2 p 3 show ?thesis by blast
qed

text \<open>
  The claim C2 as the specification states it fails: the texts \<^verbatim>\<open>{}\<close> and \<^verbatim>\<open>[]\<close>
  parse, neither value is an object with an array of workspaces, and \<^verbatim>\<open>load\<close> returns
  the empty registry without printing anything.
\<close>

theorem load_wrong_shape_is_silent:
  "JSON_parse ''{}'' = Some (JObject [])
   \<and> \<not> isArray (getProperty (JObject []) ''workspaces'')
   \<and> load (Content ''{}'') = (emptyConfig, [])
   \<and> JSON_parse ''[]'' = Some (JArray [])
   \<and> \<not> isArray (getProperty (JArray []) ''workspaces'')
   \<and> load (Content ''[]'') = (emptyConfig, [])"
  by (simp add: load_def JSON_parse_def skipWs_def isWs_def getProperty_def isArray_def)

subsection \<open>Save after load\<close>

text \<open>
  C9. For every registry of the documented shape, the file \<^verbatim>\<open>save\<close> writes loads,
  without a warning, to the value that was saved, and saving what was loaded writes the
  same file, byte for byte.
\<close>

theorem save_load_idempotent:
  "load (save (jsConfig c)) = (jsConfig c, [])
   \<and> save (fst (load (save (jsConfig c)))) = save (jsConfig c)"
proof -
  have "isArray (getProperty (jsConfig c) ''workspaces'')"
    by (simp add: jsConfig_def getProperty_def isArray_def)
  with wfValue_jsConfig have "load (save (jsConfig c)) = (jsConfig c, [])"
    by (rule load_save)
  then show ?thesis by simp
qed

theorem save_load_idempotent_witness:
  "load (save (jsConfig appAndLib)) = (jsConfig appAndLib, [])
   \<and> save (fst (load (save (jsConfig appAndLib)))) = save (jsConfig appAndLib)"
  by (rule save_load_idempotent)

end
